theory Spec2Isabelle
  imports Complex_Main "HOL-Library.AList"
begin

section \<open>Errors (errors/base.ts, errors/api.ts, errors/oauth.ts, errors/factory.ts)\<close>

text \<open>
  The error classes of the SDK. The constructors follow the class hierarchy:
  \<open>WhoopAuthError\<close>, \<open>WhoopRateLimitError\<close>, \<open>WhoopNotFoundError\<close> and
  \<open>WhoopValidationError\<close> extend \<open>WhoopAPIError\<close> with a fixed status;
  \<open>WhoopNetworkError\<close> carries its cause. \<open>JsError\<close> is a plain
  \<^verbatim>\<open>new Error(message)\<close> or any other thrown value, \<open>JsUndefined\<close> is the value
  \<^verbatim>\<open>undefined\<close> when it is thrown.
\<close>

datatype whoop_error =
    WhoopAPIError int string string
  | WhoopAuthError string
  | WhoopRateLimitError string "int option"
  | WhoopNotFoundError string
  | WhoopValidationError string
  | WhoopNetworkError string whoop_error
  | WhoopTimeoutError string
  | WhoopConfigError string
  | WhoopOAuthError string
  | JsError string
  | JsUndefined

text \<open>\<^verbatim>\<open>error instanceof WhoopAPIError\<close>, true for the class and its four subclasses.\<close>

fun isWhoopAPIError :: "whoop_error \<Rightarrow> bool" where
  "isWhoopAPIError (WhoopAPIError s c m) = True"
| "isWhoopAPIError (WhoopAuthError m) = True"
| "isWhoopAPIError (WhoopRateLimitError m r) = True"
| "isWhoopAPIError (WhoopNotFoundError m) = True"
| "isWhoopAPIError (WhoopValidationError m) = True"
| "isWhoopAPIError e = False"

fun isRateLimitError :: "whoop_error \<Rightarrow> bool" where
  "isRateLimitError (WhoopRateLimitError m r) = True"
| "isRateLimitError e = False"

fun isAuthError :: "whoop_error \<Rightarrow> bool" where
  "isAuthError (WhoopAuthError m) = True"
| "isAuthError e = False"

text \<open>The \<open>status\<close> field of an API error; the subclasses pass a constant to \<open>super\<close>.\<close>

fun status :: "whoop_error \<Rightarrow> int option" where
  "status (WhoopAPIError s c m) = Some s"
| "status (WhoopAuthError m) = Some 401"
| "status (WhoopRateLimitError m r) = Some 429"
| "status (WhoopNotFoundError m) = Some 404"
| "status (WhoopValidationError m) = Some 400"
| "status e = None"

definition isServerError :: "whoop_error \<Rightarrow> bool" where
  "isServerError e = (case status e of Some s \<Rightarrow> s \<ge> 500 | None \<Rightarrow> False)"

record retry_info =
  canRetry :: bool
  delayMs :: "int option"

text \<open>
  \<open>getRetryInfo\<close>: the three tests in the order of the source. \<open>retryAfter\<close> is
  \<open>None\<close> for \<^verbatim>\<open>undefined\<close>; the truthiness test
  \<^verbatim>\<open>error.retryAfter ? ... : 60000\<close> also sends 0 to the default.
\<close>

fun getRetryInfo :: "whoop_error \<Rightarrow> retry_info" where
  "getRetryInfo (WhoopRateLimitError m r) =
     \<lparr>canRetry = True,
      delayMs = Some (case r of None \<Rightarrow> 60000
                       | Some a \<Rightarrow> if a = 0 then 60000 else a * 1000)\<rparr>"
| "getRetryInfo (WhoopNetworkError m c) = \<lparr>canRetry = True, delayMs = Some 1000\<rparr>"
| "getRetryInfo (WhoopTimeoutError m) = \<lparr>canRetry = True, delayMs = Some 1000\<rparr>"
| "getRetryInfo e =
     (if isWhoopAPIError e then \<lparr>canRetry = isServerError e, delayMs = Some 1000\<rparr>
      else \<lparr>canRetry = False, delayMs = None\<rparr>)"

section \<open>Retry with exponential backoff (utils/retry.ts)\<close>

text \<open>
  The options of \<open>withRetry\<close> after destructuring with the defaults. The abort signal,
  when one is passed, is read at the start of every attempt: \<open>signal\<close> maps the
  attempt number to what \<^verbatim>\<open>signal.aborted\<close> reads then.
\<close>

record retry_options =
  maxAttempts :: int
  baseDelayMs :: rat
  maxDelayMs :: rat
  signal :: "(int \<Rightarrow> bool) option"

definition default_retry_options :: retry_options where
  "default_retry_options =
     \<lparr>maxAttempts = 3, baseDelayMs = 1000, maxDelayMs = 30000, signal = None\<rparr>"

text \<open>
  What one call of \<open>withRetry\<close> did: the value returned or the error thrown, how often
  the operation was invoked, and the delays slept between the attempts.
\<close>

record 'a retry_run =
  outcome :: "whoop_error + 'a"
  invocations :: nat
  sleeps :: "rat list"

text \<open>
  The delay before the next attempt. \<open>r\<close> is the value drawn by \<^verbatim>\<open>Math.random()\<close>;
  \<^verbatim>\<open>retryInfo.delayMs || jitteredDelay\<close> takes the jittered delay when the hint is
  \<^verbatim>\<open>undefined\<close> or 0.
\<close>

definition finalDelay :: "retry_options \<Rightarrow> retry_info \<Rightarrow> int \<Rightarrow> rat \<Rightarrow> rat" where
  "finalDelay opts info attempt r =
     (let exponentialDelay = baseDelayMs opts * 2 ^ nat (attempt - 1);
          jitteredDelay = exponentialDelay * (1 / 2 + r * (1 / 2))
      in min (case delayMs info of
                None \<Rightarrow> jitteredDelay
              | Some d \<Rightarrow> if d = 0 then jitteredDelay else of_int d)
             (maxDelayMs opts))"

text \<open>
  The loop \<^verbatim>\<open>for (let attempt = 1; attempt <= maxAttempts; attempt++)\<close>. The operation is
  given by the outcome of each of its invocations, \<open>fn k\<close> for the \<open>k\<close>-th one (counted
  from 1); \<open>rnd k\<close> is the \<open>k\<close>-th random draw. \<open>lastError\<close> starts as
  \<^verbatim>\<open>undefined\<close>, which is what \<^verbatim>\<open>throw lastError!\<close> throws when the loop body never ran.
\<close>

function retry_loop ::
  "retry_options \<Rightarrow> (nat \<Rightarrow> whoop_error + 'a) \<Rightarrow> (nat \<Rightarrow> rat) \<Rightarrow>
   int \<Rightarrow> whoop_error \<Rightarrow> nat \<Rightarrow> rat list \<Rightarrow> 'a retry_run" where
  "retry_loop opts fn rnd attempt lastError calls slept =
     (if attempt \<le> maxAttempts opts then
        (if (case signal opts of None \<Rightarrow> False | Some aborted \<Rightarrow> aborted attempt) then
           \<lparr>outcome = Inl (JsError ''Request aborted''), invocations = calls, sleeps = slept\<rparr>
         else
           (case fn (Suc calls) of
              Inr v \<Rightarrow> \<lparr>outcome = Inr v, invocations = Suc calls, sleeps = slept\<rparr>
            | Inl e \<Rightarrow>
                if attempt = maxAttempts opts then
                  \<lparr>outcome = Inl e, invocations = Suc calls, sleeps = slept\<rparr>
                else if \<not> canRetry (getRetryInfo e) then
                  \<lparr>outcome = Inl e, invocations = Suc calls, sleeps = slept\<rparr>
                else
                  retry_loop opts fn rnd (attempt + 1) e (Suc calls)
                    (slept @ [finalDelay opts (getRetryInfo e) attempt (rnd (Suc calls))])))
      else \<lparr>outcome = Inl lastError, invocations = calls, sleeps = slept\<rparr>)"
  by pat_completeness auto
termination
  by (relation "measure (\<lambda>(opts, fn, rnd, attempt, lastError, calls, slept).
                  nat (maxAttempts opts + 1 - attempt))") auto

declare retry_loop.simps [simp del]

definition withRetry ::
  "(nat \<Rightarrow> whoop_error + 'a) \<Rightarrow> retry_options \<Rightarrow> (nat \<Rightarrow> rat) \<Rightarrow> 'a retry_run" where
  "withRetry fn opts rnd = retry_loop opts fn rnd 1 JsUndefined 0 []"

section \<open>Cache (utils/cache.ts)\<close>

subsection \<open>Values and the platform\<close>

text \<open>
  The cache is generic in the type of its values and stores whatever it is given;
  \<open>compress\<close> can replace a value by a string. A JavaScript value is therefore
  \<^verbatim>\<open>undefined\<close>, a string, or any other value \<open>JsValue v\<close>. Strings are modelled
  by their UTF-8 bytes, so that \<open>length\<close> is what \<^verbatim>\<open>new Blob([s]).size\<close> reads.
\<close>

datatype 'v jsval = JsUndef | JsString string | JsValue 'v

text \<open>
  What \<^verbatim>\<open>JSON.stringify\<close> does with a value: it throws (a circular structure, a
  BigInt), returns \<^verbatim>\<open>undefined\<close>, or returns a text.
\<close>

datatype js_text = Raises whoop_error | Undefined | Text string

text \<open>
  The functions of the JavaScript platform that the cache calls. They are not part of
  the repository and are parameters of the model. \<open>JSON_parse\<close> is \<open>None\<close> where
  \<^verbatim>\<open>JSON.parse\<close> throws; \<open>String_of\<close> is \<^verbatim>\<open>String(value)\<close>.
\<close>

record 'v platform =
  JSON_stringify :: "'v jsval \<Rightarrow> js_text"
  JSON_parse :: "string \<Rightarrow> 'v jsval option"
  String_of :: "'v jsval \<Rightarrow> string"

subsection \<open>State\<close>

datatype key_strategy = Url | Custom

record cache_config =
  ttl :: int
  maxSize :: int
  compress :: bool
  keyStrategy :: key_strategy

text \<open>The configuration the constructor builds from the defaults.\<close>

definition default_cache_config :: cache_config where
  "default_cache_config =
     \<lparr>ttl = 5 * 60 * 1000, maxSize = 1000, compress = False, keyStrategy = Url\<rparr>"

text \<open>
  \<open>CacheEntry\<close>. The fields \<open>ttl\<close> and \<open>size\<close> of the source are \<open>entry_ttl\<close> and
  \<open>entry_size\<close> here (\<open>ttl\<close> is also a field of the configuration, \<open>size\<close> a constant
  of HOL). \<open>set\<close> fills every field, so none is optional in the model.
\<close>

record 'v cache_entry =
  data :: "'v jsval"
  timestamp :: int
  entry_ttl :: int
  accessCount :: nat
  lastAccessed :: int
  compressed :: bool
  entry_size :: int

record cache_stats =
  hits :: nat
  misses :: nat
  evictions :: nat
  compressionSavings :: int

text \<open>
  The two \<^verbatim>\<open>Map\<close>s are association lists in insertion order, which is the order a
  JavaScript \<^verbatim>\<open>Map\<close> iterates in: \<open>AList.update\<close> replaces the value of a key that
  is present where it stands and appends a new key, as \<^verbatim>\<open>Map.set\<close> does, and
  \<open>AList.delete\<close> is \<^verbatim>\<open>Map.delete\<close>.
\<close>

record 'v whoop_cache =
  cache :: "(string \<times> 'v cache_entry) list"
  accessOrder :: "(string \<times> nat) list"
  config :: cache_config
  accessCounter :: nat
  totalSize :: int
  stats :: cache_stats

definition new_cache :: "cache_config \<Rightarrow> 'v whoop_cache" where
  "new_cache cfg =
     \<lparr>cache = [], accessOrder = [], config = cfg, accessCounter = 0, totalSize = 0,
      stats = \<lparr>hits = 0, misses = 0, evictions = 0, compressionSavings = 0\<rparr>\<rparr>"

text \<open>How a call ends: it returns, it throws, or it never returns.\<close>

datatype 'a completion = Returned 'a | Thrown whoop_error | Diverged

subsection \<open>Size estimate and compression\<close>

text \<open>
  \<open>estimateSize\<close>: \<^verbatim>\<open>new Blob([JSON.stringify(obj)]).size\<close>, with no handler around
  \<^verbatim>\<open>JSON.stringify\<close>. A \<^verbatim>\<open>Blob\<close> part that is \<^verbatim>\<open>undefined\<close> is converted to the
  nine bytes of the text \<^verbatim>\<open>undefined\<close>.
\<close>

definition estimateSize :: "'v platform \<Rightarrow> 'v jsval \<Rightarrow> whoop_error + int" where
  "estimateSize P obj =
     (case JSON_stringify P obj of
        Raises e \<Rightarrow> Inl e
      | Undefined \<Rightarrow> Inr (int (length ''undefined''))
      | Text jsonString \<Rightarrow> Inr (int (length jsonString)))"

text \<open>\<open>compress\<close>: \<^verbatim>\<open>JSON.stringify(data)\<close>, and \<^verbatim>\<open>String(data)\<close> when that throws.\<close>

definition compress_data :: "'v platform \<Rightarrow> 'v jsval \<Rightarrow> 'v jsval" where
  "compress_data P d =
     (case JSON_stringify P d of
        Raises e \<Rightarrow> JsString (String_of P d)
      | Undefined \<Rightarrow> JsUndef
      | Text s \<Rightarrow> JsString s)"

text \<open>
  \<open>decompress\<close>: \<^verbatim>\<open>JSON.parse(compressedData)\<close>, and the argument itself when that
  throws. \<^verbatim>\<open>JSON.parse\<close> converts an argument that is not a string to one first.
\<close>

definition decompress :: "'v platform \<Rightarrow> 'v jsval \<Rightarrow> 'v jsval" where
  "decompress P compressedData =
     (case JSON_parse P (case compressedData of JsString s \<Rightarrow> s
                                               | _ \<Rightarrow> String_of P compressedData) of
        Some v \<Rightarrow> v
      | None \<Rightarrow> compressedData)"

subsection \<open>Operations\<close>

text \<open>
  Every operation takes the reading \<open>now\<close> of \<^verbatim>\<open>Date.now()\<close>; the reads within one
  synchronous call return the same value. \<open>get\<close> returns \<^verbatim>\<open>undefined\<close>, that is
  \<open>JsUndef\<close>, for a key that is absent or expired.
\<close>

definition cache_get ::
  "'v platform \<Rightarrow> 'v whoop_cache \<Rightarrow> string \<Rightarrow> int \<Rightarrow> 'v jsval \<times> 'v whoop_cache" where
  "cache_get P c key now =
     (case map_of (cache c) key of
        None \<Rightarrow> (JsUndef, c\<lparr>stats := (stats c)\<lparr>misses := misses (stats c) + 1\<rparr>\<rparr>)
      | Some entry \<Rightarrow>
          if now - timestamp entry > entry_ttl entry then
            (JsUndef,
             c\<lparr>cache := AList.delete key (cache c),
               accessOrder := AList.delete key (accessOrder c),
               totalSize := totalSize c - entry_size entry,
               stats := (stats c)\<lparr>misses := misses (stats c) + 1\<rparr>\<rparr>)
          else
            (if compressed entry \<and> compress (config c) then decompress P (data entry)
             else data entry,
             c\<lparr>cache := AList.update key
                          (entry\<lparr>accessCount := accessCount entry + 1, lastAccessed := now\<rparr>)
                          (cache c),
               accessOrder := AList.update key (accessCounter c + 1) (accessOrder c),
               accessCounter := accessCounter c + 1,
               stats := (stats c)\<lparr>hits := hits (stats c) + 1\<rparr>\<rparr>))"

text \<open>\<open>delete\<close> returns whether the key was present.\<close>

definition cache_delete :: "'v whoop_cache \<Rightarrow> string \<Rightarrow> bool \<times> 'v whoop_cache" where
  "cache_delete c key =
     (map_of (cache c) key \<noteq> None,
      c\<lparr>totalSize := (case map_of (cache c) key of
                         None \<Rightarrow> totalSize c
                       | Some entry \<Rightarrow> totalSize c - entry_size entry),
        accessOrder := AList.delete key (accessOrder c),
        cache := AList.delete key (cache c)\<rparr>)"

definition cache_clear :: "'v whoop_cache \<Rightarrow> 'v whoop_cache" where
  "cache_clear c = c\<lparr>cache := [], accessOrder := [], totalSize := 0, accessCounter := 0\<rparr>"

text \<open>
  The scan of \<open>evictLRU\<close> over \<open>accessOrder\<close>: \<open>oldestAccess\<close> starts as
  \<^verbatim>\<open>Infinity\<close> (\<open>None\<close> here), and only a strictly smaller access time replaces the
  candidate.
\<close>

fun oldest_scan ::
  "(string \<times> nat) list \<Rightarrow> string option \<times> nat option \<Rightarrow> string option \<times> nat option" where
  "oldest_scan [] acc = acc"
| "oldest_scan ((key, accessTime) # rest) (oldestKey, oldestAccess) =
     (if (case oldestAccess of None \<Rightarrow> True | Some a \<Rightarrow> accessTime < a)
      then oldest_scan rest (Some key, Some accessTime)
      else oldest_scan rest (oldestKey, oldestAccess))"

text \<open>
  \<open>evictLRU\<close>. The test \<^verbatim>\<open>if (oldestKey)\<close> is a truthiness test: it fails for
  \<^verbatim>\<open>undefined\<close> and also for the empty string.
\<close>

definition evictLRU :: "'v whoop_cache \<Rightarrow> 'v whoop_cache" where
  "evictLRU c =
     (case fst (oldest_scan (accessOrder c) (None, None)) of
        None \<Rightarrow> c
      | Some oldestKey \<Rightarrow>
          if oldestKey \<noteq> [] then
            (let c' = snd (cache_delete c oldestKey)
             in c'\<lparr>stats := (stats c')\<lparr>evictions := evictions (stats c') + 1\<rparr>\<rparr>)
          else c)"

text \<open>
  The loop \<^verbatim>\<open>while (cache.size >= maxSize && cache.size > 0) evictLRU()\<close> of \<open>set\<close>.
  Nothing in the loop bounds the number of rounds, so the model is a partial function:
  \<open>None\<close> is a loop that never ends.
\<close>

partial_function (option) evict_loop :: "'v whoop_cache \<Rightarrow> 'v whoop_cache option" where
  "evict_loop c =
     (if int (length (cache c)) \<ge> maxSize (config c) \<and> length (cache c) > 0
      then evict_loop (evictLRU c)
      else Some c)"

declare evict_loop.simps [code]

text \<open>
  \<open>set\<close>. \<^verbatim>\<open>compressedSize < size * 0.8\<close> is written with integers,
  \<open>5 * compressedSize < 4 * size\<close>. \<open>customTtl\<close> is \<open>None\<close> when the argument is
  left out.
\<close>

definition cache_set ::
  "'v platform \<Rightarrow> 'v whoop_cache \<Rightarrow> string \<Rightarrow> 'v jsval \<Rightarrow> int option \<Rightarrow> int \<Rightarrow>
   'v whoop_cache completion" where
  "cache_set P c key d customTtl now =
     (let ttl' = (case customTtl of None \<Rightarrow> ttl (config c) | Some t \<Rightarrow> t) in
      case estimateSize P d of
        Inl e \<Rightarrow> Thrown e
      | Inr size0 \<Rightarrow>
          (case (if compress (config c) \<and> size0 > 1024 then
                   (case estimateSize P (compress_data P d) of
                      Inl e \<Rightarrow> Inl e
                    | Inr compressedSize \<Rightarrow>
                        if 5 * compressedSize < 4 * size0 then
                          Inr (compress_data P d, True, compressedSize,
                               c\<lparr>stats := (stats c)\<lparr>compressionSavings :=
                                    compressionSavings (stats c) + (size0 - compressedSize)\<rparr>\<rparr>)
                        else Inr (d, False, size0, c))
                 else Inr (d, False, size0, c)) of
             Inl e \<Rightarrow> Thrown e
           | Inr (processedData, compressed', size', c1) \<Rightarrow>
               (case evict_loop c1 of
                  None \<Rightarrow> Diverged
                | Some c2 \<Rightarrow>
                    Returned
                      (c2\<lparr>cache := AList.update key
                                     \<lparr>data = processedData, timestamp = now, entry_ttl = ttl',
                                      accessCount = 1, lastAccessed = now,
                                      compressed = compressed', entry_size = size'\<rparr>
                                     (cache c2),
                          accessOrder := AList.update key (accessCounter c2 + 1) (accessOrder c2),
                          accessCounter := accessCounter c2 + 1,
                          totalSize := totalSize c2 + size'\<rparr>))))"

text \<open>\<open>has\<close>: \<^verbatim>\<open>this.get(key) !== undefined\<close>, with the effects of \<open>get\<close>.\<close>

definition cache_has ::
  "'v platform \<Rightarrow> 'v whoop_cache \<Rightarrow> string \<Rightarrow> int \<Rightarrow> bool \<times> 'v whoop_cache" where
  "cache_has P c key now = (fst (cache_get P c key now) \<noteq> JsUndef, snd (cache_get P c key now))"

text \<open>
  The part of \<open>getStats\<close> that reports memory: \<open>size\<close> is the number of entries and
  \<open>totalMemory\<close> is the running total \<open>totalSize\<close>.
\<close>

record cache_report =
  report_size :: nat
  totalMemory :: int

definition getStats :: "'v whoop_cache \<Rightarrow> cache_report" where
  "getStats c = \<lparr>report_size = length (cache c), totalMemory = totalSize c\<rparr>"

text \<open>The sum of the recorded sizes of the entries that are present.\<close>

definition recorded_sizes :: "'v whoop_cache \<Rightarrow> int" where
  "recorded_sizes c = sum_list (map (\<lambda>(k, e). entry_size e) (cache c))"

text \<open>
  The platform assumption under which \<open>set\<close> never keeps a compressed form:
  \<^verbatim>\<open>JSON.stringify\<close> of a string returns a text that is longer than the string (in
  JavaScript it adds the two quotes and escapes).
\<close>

definition quoting_lengthens :: "'v platform \<Rightarrow> bool" where
  "quoting_lengthens P =
     (\<forall>s. case JSON_stringify P (JsString s) of
             Text t \<Rightarrow> length s < length t
           | _ \<Rightarrow> False)"

text \<open>
  A platform for concrete runs. A value \<open>JsValue t\<close> stands for an object whose JSON
  text is \<open>t\<close>; the empty text marks an object that \<^verbatim>\<open>JSON.stringify\<close> rejects (one
  with a circular reference). The text of a string is the string between quotes, with
  no escapes, and every text that is not empty parses: the runs below store objects
  without compression, where neither is used.
\<close>

definition example_platform :: "string platform" where
  "example_platform =
     \<lparr>JSON_stringify = (\<lambda>v. case v of
          JsUndef \<Rightarrow> Undefined
        | JsString s \<Rightarrow> Text (CHR 0x22 # s @ [CHR 0x22])
        | JsValue t \<Rightarrow> if t = [] then Raises (JsError ''TypeError: cyclic object value'')
                       else Text t),
      JSON_parse = (\<lambda>s. if s = [] then None else Some (JsValue s)),
      String_of = (\<lambda>v. ''[object Object]'')\<rparr>"

text \<open>
  The accounting invariant: the keys of the store are distinct, and the running total
  is the sum of the recorded sizes.
\<close>

definition accounted :: "'v whoop_cache \<Rightarrow> bool" where
  "accounted c = (distinct (map fst (cache c)) \<and> totalSize c = recorded_sizes c)"

text \<open>A sequence of calls of \<open>set\<close>, each with its key, value and clock reading.\<close>

fun cache_sets ::
  "'v platform \<Rightarrow> 'v whoop_cache \<Rightarrow> (string \<times> 'v jsval \<times> int) list \<Rightarrow>
   'v whoop_cache completion" where
  "cache_sets P c [] = Returned c"
| "cache_sets P c ((key, d, now) # rest) =
     (case cache_set P c key d None now of
        Returned c' \<Rightarrow> cache_sets P c' rest
      | Thrown e \<Rightarrow> Thrown e
      | Diverged \<Rightarrow> Diverged)"

text \<open>
  The store and the access order list the keys \<open>ks\<close> in the same order, and the
  access stamps are the last \<open>length ks\<close> values of the counter, in increasing order:
  the state that calls of \<open>set\<close> with new keys, and no reads, produce.
\<close>

definition lru_order :: "'v whoop_cache \<Rightarrow> string list \<Rightarrow> bool" where
  "lru_order c ks =
     (map fst (cache c) = ks \<and> length ks \<le> accessCounter c
      \<and> accessOrder c = zip ks [accessCounter c + 1 - length ks ..< accessCounter c + 1])"

section \<open>Token manager (auth/oauth.ts)\<close>

subsection \<open>Tokens and the client\<close>

text \<open>
  \<open>OAuthTokens\<close>. A string field that is empty is falsy in the tests of the source
  (\<^verbatim>\<open>refreshToken || this.tokens?.refresh_token\<close>), like one that is missing;
  \<open>or_else\<close> is \<^verbatim>\<open>a || b\<close> on strings.
\<close>

record oauth_tokens =
  access_token :: string
  refresh_token :: string
  expires_in :: int
  token_type :: string
  scope :: string

definition or_else :: "string \<Rightarrow> string \<Rightarrow> string" where
  "or_else a b = (if a = [] then b else a)"

record oauth_config =
  clientId :: string
  clientSecret :: string
  redirectUri :: string
  baseUrl :: string
  scopes :: "string list"

text \<open>
  \<open>WhoopOAuthClient\<close>. The client keeps the token set and the promise of the refresh
  in flight, and nothing else: no time is recorded when tokens are stored. A promise is
  named by a number.
\<close>

record oauth_client =
  oauth_cfg :: oauth_config
  tokens :: "oauth_tokens option"
  refreshPromise :: "nat option"

definition new_oauth_client :: "oauth_config \<Rightarrow> oauth_client" where
  "new_oauth_client cfg = \<lparr>oauth_cfg = cfg, tokens = None, refreshPromise = None\<rparr>"

definition setTokens :: "oauth_client \<Rightarrow> oauth_tokens \<Rightarrow> oauth_client" where
  "setTokens c t = c\<lparr>tokens := Some t\<rparr>"

definition getTokens :: "oauth_client \<Rightarrow> oauth_tokens option" where
  "getTokens c = tokens c"

definition clearTokens :: "oauth_client \<Rightarrow> oauth_client" where
  "clearTokens c = c\<lparr>tokens := None\<rparr>"

text \<open>
  \<open>isTokenExpired\<close>. The source reads the clock twice: \<open>now1\<close> is the reading inside
  \<^verbatim>\<open>expirationTime = Date.now() + expires_in * 1000 - bufferMs\<close>, \<open>now2\<close> the one in
  \<^verbatim>\<open>Date.now() >= expirationTime\<close>. An \<open>expires_in\<close> of 0 is falsy and means
  "still valid".
\<close>

definition isTokenExpired ::
  "oauth_client \<Rightarrow> oauth_tokens option \<Rightarrow> int \<Rightarrow> int \<Rightarrow> bool" where
  "isTokenExpired c tokens_arg now1 now2 =
     (case (case tokens_arg of Some t \<Rightarrow> Some t | None \<Rightarrow> tokens c) of
        None \<Rightarrow> True
      | Some currentTokens \<Rightarrow>
          if expires_in currentTokens = 0 then False
          else (let bufferMs = 5 * 60 * 1000;
                    expirationTime = now1 + expires_in currentTokens * 1000 - bufferMs
                in now2 \<ge> expirationTime))"

text \<open>The rule of the specification, for a token set stored at the time \<open>issuedAt\<close>.\<close>

definition expired_by_spec :: "int \<Rightarrow> oauth_tokens \<Rightarrow> int \<Rightarrow> bool" where
  "expired_by_spec issuedAt t now = (now \<ge> issuedAt + expires_in t * 1000 - 300000)"

subsection \<open>The refresh request\<close>

text \<open>
  The JSON object the token endpoint answers with; an empty string is a field that is
  missing. The exchange ends in a failure of \<^verbatim>\<open>fetch\<close> or of \<^verbatim>\<open>response.json()\<close>,
  or in a response with its \<^verbatim>\<open>ok\<close> flag and its data.
\<close>

record token_data =
  d_access_token :: string
  d_refresh_token :: string
  d_expires_in :: int
  d_token_type :: string
  d_scope :: string
  d_error :: string
  d_error_description :: string

datatype http_reply = FetchFailed whoop_error | Reply bool token_data

fun error_message :: "whoop_error \<Rightarrow> string" where
  "error_message (WhoopAPIError s c m) = m"
| "error_message (WhoopAuthError m) = m"
| "error_message (WhoopRateLimitError m r) = m"
| "error_message (WhoopNotFoundError m) = m"
| "error_message (WhoopValidationError m) = m"
| "error_message (WhoopNetworkError m c) = m"
| "error_message (WhoopTimeoutError m) = m"
| "error_message (WhoopConfigError m) = m"
| "error_message (WhoopOAuthError m) = m"
| "error_message (JsError m) = m"
| "error_message JsUndefined = []"

text \<open>
  \<open>ErrorFactory.fromNetworkError\<close>. Reading \<^verbatim>\<open>error.message\<close> of \<^verbatim>\<open>undefined\<close> throws a
  \<^verbatim>\<open>TypeError\<close> instead.
\<close>

definition fromNetworkError :: "whoop_error \<Rightarrow> whoop_error" where
  "fromNetworkError e =
     (if e = JsUndefined then JsError ''TypeError: cannot read properties of undefined''
      else WhoopNetworkError (''Network error: '' @ error_message e) e)"

fun join_space :: "string list \<Rightarrow> string" where
  "join_space [] = []"
| "join_space [x] = x"
| "join_space (x # y # r) = x @ '' '' @ join_space (y # r)"

text \<open>
  \<open>performTokenRefresh\<close>, from the reply of the token endpoint to the outcome of the
  promise. The request itself (URL and form body) is left out.
\<close>

definition performTokenRefresh ::
  "oauth_config \<Rightarrow> string \<Rightarrow> http_reply \<Rightarrow> whoop_error + oauth_tokens" where
  "performTokenRefresh cfg refreshToken reply =
     (case reply of
        FetchFailed e \<Rightarrow> if isAuthError e then Inl e else Inl (fromNetworkError e)
      | Reply ok d \<Rightarrow>
          if \<not> ok then
            Inl (WhoopAuthError
                   (or_else (d_error_description d) (or_else (d_error d) ''Token refresh failed'')))
          else
            Inr \<lparr>access_token = d_access_token d,
                 refresh_token = or_else (d_refresh_token d) refreshToken,
                 expires_in = d_expires_in d,
                 token_type = or_else (d_token_type d) ''Bearer'',
                 scope = or_else (d_scope d) (join_space (scopes cfg))\<rparr>)"

subsection \<open>HTTP responses and their errors (utils/http-client.ts, errors/factory.ts)\<close>

text \<open>
  The parsed body of a response, as far as the error factory reads it: \<^verbatim>\<open>null\<close> when
  parsing failed, a text, or a JSON object with the fields below (empty when missing).
  \<open>b_retry_after\<close> is what \<^verbatim>\<open>parseInt(retryAfter, 10)\<close> gives, \<open>None\<close> when the field
  is missing or falsy.
\<close>

record json_body =
  b_message :: string
  b_error_description :: string
  b_error :: string
  b_code :: string
  b_retry_after :: "int option"

datatype response_body = NullBody | TextBody string | JsonBody json_body

record http_response =
  resp_status :: int
  resp_body :: response_body

text \<open>\<^verbatim>\<open>response.ok\<close>: the status is in the range 200 to 299.\<close>

definition resp_ok :: "http_response \<Rightarrow> bool" where
  "resp_ok r = (200 \<le> resp_status r \<and> resp_status r \<le> 299)"

definition body_message :: "response_body \<Rightarrow> string" where
  "body_message b = (case b of JsonBody j \<Rightarrow> b_message j | _ \<Rightarrow> [])"

text \<open>Decimal digits of a number, for the message \<^verbatim>\<open>HTTP ${status} Error\<close>.\<close>

function show_nat :: "nat \<Rightarrow> string" where
  "show_nat n =
     (if n < 10 then [char_of (48 + n)]
      else show_nat (n div 10) @ [char_of (48 + n mod 10)])"
  by pat_completeness auto
termination
  by (relation "measure id") auto

declare show_nat.simps [simp del]

definition show_int :: "int \<Rightarrow> string" where
  "show_int i = (if i < 0 then CHR ''-'' # show_nat (nat (- i)) else show_nat (nat i))"

text \<open>
  \<open>WhoopAPIError.fromResponse\<close> and \<open>ErrorFactory.fromHttpStatus\<close>. The errors of
  the model do not carry the \<open>details\<close> and \<open>cause\<close> arguments of the API errors.
\<close>

definition fromResponse :: "int \<Rightarrow> response_body \<Rightarrow> whoop_error" where
  "fromResponse st b =
     (case b of
        JsonBody j \<Rightarrow>
          WhoopAPIError st (or_else (b_error j) (or_else (b_code j) ''API_ERROR''))
            (or_else (b_message j)
               (or_else (b_error_description j) (''HTTP '' @ show_int st @ '' Error'')))
      | _ \<Rightarrow> WhoopAPIError st ''API_ERROR'' (''HTTP '' @ show_int st @ '' Error''))"

definition fromHttpStatus :: "int \<Rightarrow> response_body \<Rightarrow> whoop_error" where
  "fromHttpStatus st b =
     (if st = 400 then WhoopValidationError (or_else (body_message b) ''Bad Request'')
      else if st = 401 then WhoopAuthError (or_else (body_message b) ''Unauthorized'')
      else if st = 404 then WhoopNotFoundError (or_else (body_message b) ''Not Found'')
      else if st = 429 then
        WhoopRateLimitError (or_else (body_message b) ''Rate limit exceeded'')
          (case b of JsonBody j \<Rightarrow> b_retry_after j | _ \<Rightarrow> None)
      else fromResponse st b)"

subsection \<open>Calls in flight\<close>

text \<open>
  The methods are \<^verbatim>\<open>async\<close>: a call runs to its first \<^verbatim>\<open>await\<close>, and its rest runs when
  the awaited promise settles. The model is the state of the client together with the
  calls that wait and the calls that have ended, and one step function for each
  synchronous block. A call is named by a number chosen by its caller.

  \<open>http_calls\<close> lists the refresh tokens of the refresh requests that were sent, in
  order; promise \<open>p\<close> is the one \<open>performTokenRefresh\<close> returned for the request at
  position \<open>p\<close>.
\<close>

datatype call_kind =
    RefreshCall
  | GetValidCall
  | HandleCall whoop_error

datatype call_value =
    TokensValue oauth_tokens
  | AccessTokenValue string
  | BodyValue response_body

record waiter =
  w_caller :: nat
  w_kind :: call_kind
  w_leader :: bool
  w_promise :: nat

record oauth_world =
  client :: oauth_client
  http_calls :: "string list"
  waiting :: "waiter list"
  results :: "(nat \<times> (whoop_error + call_value)) list"

definition new_world :: "oauth_client \<Rightarrow> oauth_world" where
  "new_world c = \<lparr>client = c, http_calls = [], waiting = [], results = []\<rparr>"

definition finish :: "oauth_world \<Rightarrow> nat \<Rightarrow> whoop_error + call_value \<Rightarrow> oauth_world" where
  "finish w caller r = w\<lparr>results := results w @ [(caller, r)]\<rparr>"

text \<open>
  The synchronous part of \<open>refreshAccessToken\<close>, up to its \<^verbatim>\<open>await\<close>. It throws when no
  refresh token is at hand; it returns the promise in flight when there is one (the
  caller is then not the leader: it never enters the \<^verbatim>\<open>try\<close> block); otherwise it sends
  the refresh request and stores the new promise. The override is empty when the
  argument is left out.
\<close>

definition refresh_begin ::
  "oauth_world \<Rightarrow> string \<Rightarrow> (whoop_error + nat \<times> bool) \<times> oauth_world" where
  "refresh_begin w refreshToken =
     (let tokenToRefresh =
            or_else refreshToken
              (case tokens (client w) of None \<Rightarrow> [] | Some t \<Rightarrow> refresh_token t)
      in if tokenToRefresh = [] then (Inl (WhoopAuthError ''No refresh token available''), w)
         else case refreshPromise (client w) of
                Some p \<Rightarrow> (Inr (p, False), w)
              | None \<Rightarrow>
                  (Inr (length (http_calls w), True),
                   w\<lparr>http_calls := http_calls w @ [tokenToRefresh],
                     client := (client w)\<lparr>refreshPromise := Some (length (http_calls w))\<rparr>\<rparr>))"

definition suspend :: "oauth_world \<Rightarrow> nat \<Rightarrow> call_kind \<Rightarrow> nat \<times> bool \<Rightarrow> oauth_world" where
  "suspend w caller kind pl =
     w\<lparr>waiting := waiting w @
          [\<lparr>w_caller = caller, w_kind = kind, w_leader = snd pl, w_promise = fst pl\<rparr>]\<rparr>"

text \<open>A call of \<open>refreshAccessToken\<close> from outside.\<close>

definition call_refreshAccessToken :: "oauth_world \<Rightarrow> nat \<Rightarrow> string \<Rightarrow> oauth_world" where
  "call_refreshAccessToken w caller refreshToken =
     (case refresh_begin w refreshToken of
        (Inl e, w') \<Rightarrow> finish w' caller (Inl e)
      | (Inr pl, w') \<Rightarrow> suspend w' caller RefreshCall pl)"

text \<open>\<open>getValidAccessToken\<close>, with the two clock readings of \<open>isTokenExpired\<close>.\<close>

definition call_getValidAccessToken :: "oauth_world \<Rightarrow> nat \<Rightarrow> int \<Rightarrow> int \<Rightarrow> oauth_world" where
  "call_getValidAccessToken w caller now1 now2 =
     (case tokens (client w) of
        None \<Rightarrow>
          finish w caller (Inl (WhoopAuthError ''No tokens available. Please authenticate first.''))
      | Some t \<Rightarrow>
          if isTokenExpired (client w) (Some t) now1 now2 then
            (case refresh_begin w [] of
               (Inl e, w') \<Rightarrow> finish w' caller (Inl e)
             | (Inr pl, w') \<Rightarrow> suspend w' caller GetValidCall pl)
          else finish w caller (Inr (AccessTokenValue (access_token t))))"

text \<open>
  The part of \<open>WhoopHttpClient\<close> that \<open>handleResponse\<close> reads: whether an OAuth client
  is configured, and the callback \<open>onTokenRefresh\<close>, which returns \<open>None\<close> when it
  completes and the error when it throws or rejects.
\<close>

record http_client =
  oauthClient :: bool
  onTokenRefresh :: "(oauth_tokens \<Rightarrow> whoop_error option) option"

text \<open>
  \<open>handleResponse\<close> up to \<^verbatim>\<open>await this.oauthClient.refreshAccessToken()\<close>. When that call
  throws at once, the \<^verbatim>\<open>catch\<close> block runs: the tokens are cleared and the error of the
  response is thrown.
\<close>

definition call_handleResponse ::
  "http_client \<Rightarrow> oauth_world \<Rightarrow> nat \<Rightarrow> http_response \<Rightarrow> oauth_world" where
  "call_handleResponse hc w caller response =
     (if \<not> resp_ok response then
        (let error = fromHttpStatus (resp_status response) (resp_body response) in
         if isAuthError error \<and> oauthClient hc \<and> status error = Some 401 then
           (case refresh_begin w [] of
              (Inl e, w') \<Rightarrow> finish (w'\<lparr>client := clearTokens (client w')\<rparr>) caller (Inl error)
            | (Inr pl, w') \<Rightarrow> suspend w' caller (HandleCall error) pl)
         else finish w caller (Inl error))
      else finish w caller (Inr (BodyValue (resp_body response))))"

text \<open>
  The rest of a waiting call, run when its promise has settled with \<open>out\<close>. First the
  rest of \<open>refreshAccessToken\<close>, which only the leader has: it stores the new tokens on
  success, and its \<^verbatim>\<open>finally\<close> block empties the slot. Then the rest of the method that
  called it. For \<open>handleResponse\<close> this is the \<^verbatim>\<open>try\<close> block after the \<^verbatim>\<open>await\<close>
  (the callback \<open>onTokenRefresh\<close>) and the \<^verbatim>\<open>catch\<close> block around both; either way the
  error of the response is thrown.
\<close>

definition resume ::
  "http_client \<Rightarrow> whoop_error + oauth_tokens \<Rightarrow> waiter \<Rightarrow> oauth_world \<Rightarrow> oauth_world" where
  "resume hc out wt w =
     (let w1 = (if w_leader wt then
                  w\<lparr>client := (client w)
                       \<lparr>tokens := (case out of Inr t \<Rightarrow> Some t | Inl e \<Rightarrow> tokens (client w)),
                        refreshPromise := None\<rparr>\<rparr>
                else w)
      in case w_kind wt of
           RefreshCall \<Rightarrow>
             finish w1 (w_caller wt)
               (case out of Inl e \<Rightarrow> Inl e | Inr t \<Rightarrow> Inr (TokensValue t))
         | GetValidCall \<Rightarrow>
             finish w1 (w_caller wt)
               (case out of Inl e \<Rightarrow> Inl e | Inr t \<Rightarrow> Inr (AccessTokenValue (access_token t)))
         | HandleCall error \<Rightarrow>
             (case out of
                Inl refreshError \<Rightarrow>
                  finish (w1\<lparr>client := clearTokens (client w1)\<rparr>) (w_caller wt) (Inl error)
              | Inr newTokens \<Rightarrow>
                  (case onTokenRefresh hc of
                     None \<Rightarrow> finish w1 (w_caller wt) (Inl error)
                   | Some callback \<Rightarrow>
                       (case callback newTokens of
                          None \<Rightarrow> finish w1 (w_caller wt) (Inl error)
                        | Some callbackError \<Rightarrow>
                            finish (w1\<lparr>client := clearTokens (client w1)\<rparr>) (w_caller wt)
                              (Inl error)))))"

text \<open>
  The refresh request of promise \<open>p\<close> is answered. The promise settles with what
  \<open>performTokenRefresh\<close> makes of the reply, and the calls that wait for it run their
  rest. The model runs them in the order in which they started to wait; the order of
  the entries that one settlement adds to \<open>results\<close> carries no meaning.
\<close>

definition settle :: "http_client \<Rightarrow> oauth_world \<Rightarrow> nat \<Rightarrow> http_reply \<Rightarrow> oauth_world" where
  "settle hc w p reply =
     (if refreshPromise (client w) = Some p \<and> p < length (http_calls w) then
        (let out = performTokenRefresh (oauth_cfg (client w)) (http_calls w ! p) reply
         in fold (resume hc out) (filter (\<lambda>wt. w_promise wt = p) (waiting w))
              (w\<lparr>waiting := filter (\<lambda>wt. w_promise wt \<noteq> p) (waiting w)\<rparr>))
      else w)"

text \<open>The steps as events, and runs of events from a world.\<close>

datatype oauth_event =
    RefreshAccessToken nat string
  | GetValidAccessToken nat int int
  | HandleResponse nat http_response
  | RefreshSettles nat http_reply
  | SetTokens oauth_tokens
  | ClearTokens

fun oauth_step :: "http_client \<Rightarrow> oauth_world \<Rightarrow> oauth_event \<Rightarrow> oauth_world" where
  "oauth_step hc w (RefreshAccessToken caller refreshToken) =
     call_refreshAccessToken w caller refreshToken"
| "oauth_step hc w (GetValidAccessToken caller now1 now2) =
     call_getValidAccessToken w caller now1 now2"
| "oauth_step hc w (HandleResponse caller response) = call_handleResponse hc w caller response"
| "oauth_step hc w (RefreshSettles p reply) = settle hc w p reply"
| "oauth_step hc w (SetTokens t) = w\<lparr>client := setTokens (client w) t\<rparr>"
| "oauth_step hc w ClearTokens = w\<lparr>client := clearTokens (client w)\<rparr>"

fun oauth_run :: "http_client \<Rightarrow> oauth_world \<Rightarrow> oauth_event list \<Rightarrow> oauth_world" where
  "oauth_run hc w [] = w"
| "oauth_run hc w (ev # evs) = oauth_run hc (oauth_step hc w ev) evs"

text \<open>Whether a refresh token is at hand for a call with the override \<open>refreshToken\<close>.\<close>

definition refresh_token_at_hand :: "oauth_world \<Rightarrow> string \<Rightarrow> bool" where
  "refresh_token_at_hand w refreshToken =
     (or_else refreshToken
        (case tokens (client w) of None \<Rightarrow> [] | Some t \<Rightarrow> refresh_token t) \<noteq> [])"

text \<open>
  In every world the steps lead to, a refresh in flight has its request on record and
  the call that started it among the waiting calls.
\<close>

definition wf_world :: "oauth_world \<Rightarrow> bool" where
  "wf_world w =
     (case refreshPromise (client w) of
        None \<Rightarrow> True
      | Some p \<Rightarrow> p < length (http_calls w) \<and>
                  (\<exists>wt \<in> set (waiting w). w_promise wt = p \<and> w_leader wt))"

text \<open>Every waiting call waits for the refresh in flight.\<close>

definition waiting_ok :: "oauth_world \<Rightarrow> bool" where
  "waiting_ok w = (\<forall>wt \<in> set (waiting w). refreshPromise (client w) = Some (w_promise wt))"

text \<open>What a call ended with, if it has ended.\<close>

definition result_of :: "oauth_world \<Rightarrow> nat \<Rightarrow> (whoop_error + call_value) option" where
  "result_of w caller = map_of (results w) caller"

text \<open>Whether a call waits for promise \<open>p\<close>.\<close>

definition awaits :: "oauth_world \<Rightarrow> nat \<Rightarrow> nat \<Rightarrow> bool" where
  "awaits w caller p = (\<exists>wt \<in> set (waiting w). w_caller wt = caller \<and> w_promise wt = p)"

text \<open>
  The \<^verbatim>\<open>catch\<close> block of \<open>performRequest\<close>, which also encloses
  \<^verbatim>\<open>return await this.handleResponse(...)\<close>: whatever \<open>handleResponse\<close> throws is
  replaced by a timeout error when the signal is aborted, and by a network error
  otherwise.
\<close>

definition performRequest_catch :: "bool \<Rightarrow> whoop_error \<Rightarrow> whoop_error" where
  "performRequest_catch aborted error =
     (if aborted then WhoopTimeoutError ''Request timeout'' else fromNetworkError error)"

text \<open>Whether the callback \<open>onTokenRefresh\<close> is set and fails on the tokens \<open>t\<close>.\<close>

definition callback_fails :: "http_client \<Rightarrow> oauth_tokens \<Rightarrow> bool" where
  "callback_fails hc t = (case onTokenRefresh hc of None \<Rightarrow> False | Some f \<Rightarrow> f t \<noteq> None)"

text \<open>Example values for concrete runs.\<close>

definition example_config :: oauth_config where
  "example_config =
     \<lparr>clientId = ''id'', clientSecret = ''secret'', redirectUri = ''https://app.example/cb'',
      baseUrl = ''https://api.prod.whoop.com'', scopes = [''read:profile'', ''offline'']\<rparr>"

definition example_tokens :: "int \<Rightarrow> oauth_tokens" where
  "example_tokens e =
     \<lparr>access_token = ''old-access'', refresh_token = ''old-refresh'', expires_in = e,
      token_type = ''Bearer'', scope = ''read:profile offline''\<rparr>"

definition example_reply :: http_reply where
  "example_reply =
     Reply True \<lparr>d_access_token = ''new-access'', d_refresh_token = [], d_expires_in = 3600,
                 d_token_type = [], d_scope = [], d_error = [], d_error_description = []\<rparr>"

section \<open>Request deduplication (utils/deduplication.ts)\<close>

subsection \<open>State\<close>

record dedup_config =
  enabled :: bool
  windowMs :: int
  maxConcurrent :: int

text \<open>The configuration the constructor builds from the defaults.\<close>

definition default_dedup_config :: dedup_config where
  "default_dedup_config = \<lparr>enabled = True, windowMs = 100, maxConcurrent = 10\<rparr>"

record dedup_stats =
  dedupedRequests :: nat
  batchedRequests :: nat
  concurrentRequests :: int
  maxConcurrentRequests :: int

text \<open>
  One underlying execution: one invocation of \<open>requestFn\<close>, by the call \<open>x_leader\<close>,
  together with the \<open>PendingRequest\<close> object that \<open>execute\<close> creates for it
  (\<open>timestamp\<close>, the callers attached through \<open>resolvers\<close> and \<open>rejectors\<close>, and
  the \<open>aborted\<close> flag of its \<open>abortController\<close>). \<open>x_registered\<close> is false for an
  invocation on the direct path (deduplication disabled or \<open>skipDedup\<close>), which has no
  such object. \<open>x_active\<close> holds until the promise of \<open>requestFn\<close> settles.
\<close>

record execution =
  x_key :: string
  x_leader :: nat
  x_registered :: bool
  x_timestamp :: int
  x_waiters :: "nat list"
  x_aborted :: bool
  x_active :: bool

text \<open>
  \<open>execute\<close> is \<^verbatim>\<open>async\<close>. As for the token manager, the model keeps the state of the
  object together with the calls that wait and the calls that have ended, and has one
  step function for each synchronous block; a call is named by a number chosen by its
  caller. \<open>pendingRequests\<close> maps a key to its \<open>PendingRequest\<close>, named by the position
  of its execution in \<open>execs\<close>. \<open>parked\<close> are the calls inside \<open>waitForSlot\<close>, with
  their keys. The batch queue of \<open>executeBatch\<close> is not part of the model.
\<close>

record 'a dedup =
  pendingRequests :: "(string \<times> nat) list"
  execs :: "execution list"
  d_config :: dedup_config
  d_stats :: dedup_stats
  parked :: "(nat \<times> string) list"
  d_results :: "(nat \<times> (whoop_error + 'a)) list"

definition new_dedup :: "dedup_config \<Rightarrow> 'a dedup" where
  "new_dedup cfg =
     \<lparr>pendingRequests = [], execs = [], d_config = cfg,
      d_stats = \<lparr>dedupedRequests = 0, batchedRequests = 0, concurrentRequests = 0,
                 maxConcurrentRequests = 0\<rparr>,
      parked = [], d_results = []\<rparr>"

subsection \<open>Steps\<close>

text \<open>\<open>isWithinWindow\<close>, at the clock reading \<open>now\<close>.\<close>

definition isWithinWindow :: "'a dedup \<Rightarrow> int \<Rightarrow> int \<Rightarrow> bool" where
  "isWithinWindow w ts now = (now - ts < windowMs (d_config w))"

text \<open>
  \<open>execute\<close> from the lookup of the pending request on: the call attaches to a
  pending request of its key that is within the window, or it invokes \<open>requestFn\<close>
  (through \<open>executeWithMetrics\<close>), registers the new pending request under the key and
  counts it.
\<close>

definition admit :: "'a dedup \<Rightarrow> nat \<Rightarrow> string \<Rightarrow> int \<Rightarrow> 'a dedup" where
  "admit w caller key now =
     (case map_of (pendingRequests w) key of
        Some i \<Rightarrow>
          if i < length (execs w) \<and> isWithinWindow w (x_timestamp (execs w ! i)) now then
            w\<lparr>d_stats := (d_stats w)\<lparr>dedupedRequests := dedupedRequests (d_stats w) + 1\<rparr>,
              execs := (execs w)[i := (execs w ! i)\<lparr>x_waiters := x_waiters (execs w ! i) @ [caller]\<rparr>]\<rparr>
          else
            w\<lparr>execs := execs w @
                 [\<lparr>x_key = key, x_leader = caller, x_registered = True, x_timestamp = now,
                   x_waiters = [], x_aborted = False, x_active = True\<rparr>],
              pendingRequests := AList.update key (length (execs w)) (pendingRequests w),
              d_stats := (d_stats w)
                 \<lparr>concurrentRequests := concurrentRequests (d_stats w) + 1,
                  maxConcurrentRequests :=
                    max (maxConcurrentRequests (d_stats w)) (concurrentRequests (d_stats w) + 1)\<rparr>\<rparr>
      | None \<Rightarrow>
          w\<lparr>execs := execs w @
               [\<lparr>x_key = key, x_leader = caller, x_registered = True, x_timestamp = now,
                 x_waiters = [], x_aborted = False, x_active = True\<rparr>],
            pendingRequests := AList.update key (length (execs w)) (pendingRequests w),
            d_stats := (d_stats w)
               \<lparr>concurrentRequests := concurrentRequests (d_stats w) + 1,
                maxConcurrentRequests :=
                  max (maxConcurrentRequests (d_stats w)) (concurrentRequests (d_stats w) + 1)\<rparr>\<rparr>)"

text \<open>
  A call of \<open>execute(key, requestFn, {skipDedup})\<close>, up to its first \<^verbatim>\<open>await\<close>. On the
  direct path it invokes \<open>requestFn\<close> and returns its promise. Otherwise the test of
  the ceiling comes first: at the ceiling the call waits in \<open>waitForSlot\<close>, whatever
  its key.
\<close>

definition call_execute :: "'a dedup \<Rightarrow> nat \<Rightarrow> string \<Rightarrow> bool \<Rightarrow> int \<Rightarrow> 'a dedup" where
  "call_execute w caller key skipDedup now =
     (if \<not> enabled (d_config w) \<or> skipDedup then
        w\<lparr>execs := execs w @
             [\<lparr>x_key = key, x_leader = caller, x_registered = False, x_timestamp = now,
               x_waiters = [], x_aborted = False, x_active = True\<rparr>]\<rparr>
      else if concurrentRequests (d_stats w) \<ge> maxConcurrent (d_config w) then
        w\<lparr>parked := parked w @ [(caller, key)]\<rparr>
      else admit w caller key now)"

text \<open>
  The timer of \<open>waitForSlot\<close> fires for a parked call: below the ceiling the call goes
  on with the lookup, otherwise it keeps waiting.
\<close>

definition poll :: "'a dedup \<Rightarrow> nat \<Rightarrow> int \<Rightarrow> 'a dedup" where
  "poll w caller now =
     (case map_of (parked w) caller of
        None \<Rightarrow> w
      | Some key \<Rightarrow>
          if concurrentRequests (d_stats w) < maxConcurrent (d_config w) then
            admit (w\<lparr>parked := AList.delete caller (parked w)\<rparr>) caller key now
          else w)"

text \<open>
  The promise of \<open>requestFn\<close> of execution \<open>i\<close> settles with \<open>out\<close>. On the direct
  path that is what the caller gets. Otherwise \<open>executeWithMetrics\<close> replaces an error
  by \<^verbatim>\<open>new Error('Request was cancelled')\<close> when the signal is aborted, and passes a
  value on as it is; the leader then settles every attached caller and itself with that
  outcome, and its \<^verbatim>\<open>finally\<close> block deletes the entry of the key and counts down.
\<close>

definition settle_exec :: "'a dedup \<Rightarrow> nat \<Rightarrow> whoop_error + 'a \<Rightarrow> 'a dedup" where
  "settle_exec w i out =
     (if i < length (execs w) \<and> x_active (execs w ! i) then
        (let x = execs w ! i;
             w1 = w\<lparr>execs := (execs w)[i := x\<lparr>x_active := False\<rparr>]\<rparr>
         in if \<not> x_registered x then
              w1\<lparr>d_results := d_results w1 @ [(x_leader x, out)]\<rparr>
            else
              (let out' = (case out of
                             Inr v \<Rightarrow> Inr v
                           | Inl e \<Rightarrow> if x_aborted x then Inl (JsError ''Request was cancelled'')
                                      else Inl e)
               in w1\<lparr>d_results := d_results w1 @ map (\<lambda>c. (c, out')) (x_waiters x)
                                      @ [(x_leader x, out')],
                      pendingRequests := AList.delete (x_key x) (pendingRequests w1),
                      d_stats := (d_stats w1)
                         \<lparr>concurrentRequests := concurrentRequests (d_stats w1) - 1\<rparr>\<rparr>))
      else w)"

text \<open>\<open>cancel\<close>: aborts the controller of the pending request of the key and deletes it.\<close>

definition cancel :: "'a dedup \<Rightarrow> string \<Rightarrow> bool \<times> 'a dedup" where
  "cancel w key =
     (case map_of (pendingRequests w) key of
        None \<Rightarrow> (False, w)
      | Some i \<Rightarrow>
          (True,
           w\<lparr>execs := (execs w)[i := (execs w ! i)\<lparr>x_aborted := True\<rparr>],
             pendingRequests := AList.delete key (pendingRequests w)\<rparr>))"

text \<open>
  \<open>clear\<close>: aborts the controller of every pending request and empties the map. The
  counters are left as they are, and so are the calls inside \<open>waitForSlot\<close>.
\<close>

definition clear :: "'a dedup \<Rightarrow> 'a dedup" where
  "clear w =
     w\<lparr>execs := fold (\<lambda>(key, i) xs. xs[i := (xs ! i)\<lparr>x_aborted := True\<rparr>])
                 (pendingRequests w) (execs w),
       pendingRequests := []\<rparr>"

subsection \<open>Runs\<close>

text \<open>
  The entries that one step adds to \<open>d_results\<close> are the calls that the step settles;
  their order within the step carries no meaning.
\<close>

datatype 'a dedup_event =
    Execute nat string bool int
  | Poll nat int
  | Settle nat "whoop_error + 'a"
  | Cancel string
  | Clear

fun dedup_step :: "'a dedup \<Rightarrow> 'a dedup_event \<Rightarrow> 'a dedup" where
  "dedup_step w (Execute caller key skipDedup now) = call_execute w caller key skipDedup now"
| "dedup_step w (Poll caller now) = poll w caller now"
| "dedup_step w (Settle i out) = settle_exec w i out"
| "dedup_step w (Cancel key) = snd (cancel w key)"
| "dedup_step w Clear = clear w"

fun dedup_run :: "'a dedup \<Rightarrow> 'a dedup_event list \<Rightarrow> 'a dedup" where
  "dedup_run w [] = w"
| "dedup_run w (ev # evs) = dedup_run (dedup_step w ev) evs"






subsection \<open>Calls that collapse among other events\<close>







text \<open>
  The deduplication key of the request for the id \<open>i mod 10\<close> in the repository's test
  of the combined cache and deduplicator; the requests have no body, so the hash part
  of the key is empty.
\<close>

definition test_key :: "nat \<Rightarrow> string" where
  "test_key i = ''GET:/api/test/'' @ show_nat (i mod 10) @ '':''"

section \<open>Proofs\<close>

section \<open>Retry: exhaustion\<close>

lemma retry_loop_exhaust:
  assumes "\<forall>k. \<exists>e. fn k = Inl e \<and> canRetry (getRetryInfo e)"
    and "signal opts = None"
    and "attempt \<le> maxAttempts opts"
  shows "invocations (retry_loop opts fn rnd attempt lastError calls slept)
           = calls + nat (maxAttempts opts + 1 - attempt)
       \<and> outcome (retry_loop opts fn rnd attempt lastError calls slept)
           = fn (calls + nat (maxAttempts opts + 1 - attempt))"
  using assms
proof (induction opts fn rnd attempt lastError calls slept rule: retry_loop.induct)
  case (1 opts fn rnd attempt lastError calls slept)
  from "1.prems"(1) obtain e where e: "fn (Suc calls) = Inl e" "canRetry (getRetryInfo e)"
    by blast
  show ?case
  proof (cases "attempt = maxAttempts opts")
    case True
    then show ?thesis
      using e "1.prems"(2) by (subst (1 2) retry_loop.simps) simp
  next
    case False
    with "1.prems"(3) have lt: "attempt + 1 \<le> maxAttempts opts" by simp
    have step: "retry_loop opts fn rnd attempt lastError calls slept =
        retry_loop opts fn rnd (attempt + 1) e (Suc calls)
          (slept @ [finalDelay opts (getRetryInfo e) attempt (rnd (Suc calls))])"
      using e False "1.prems"(2,3) by (subst retry_loop.simps) simp
    have cnt: "Suc calls + nat (maxAttempts opts + 1 - (attempt + 1))
                 = calls + nat (maxAttempts opts + 1 - attempt)"
      using lt by (simp add: nat_diff_distrib Suc_nat_eq_nat_zadd1)
    have ih: "invocations (retry_loop opts fn rnd (attempt + 1) e (Suc calls)
                (slept @ [finalDelay opts (getRetryInfo e) attempt (rnd (Suc calls))]))
              = Suc calls + nat (maxAttempts opts + 1 - (attempt + 1))
            \<and> outcome (retry_loop opts fn rnd (attempt + 1) e (Suc calls)
                (slept @ [finalDelay opts (getRetryInfo e) attempt (rnd (Suc calls))]))
              = fn (Suc calls + nat (maxAttempts opts + 1 - (attempt + 1)))"
      using "1.IH" [of e] e False "1.prems" lt by simp
    show ?thesis
      unfolding step cnt [symmetric] by (rule ih)
  qed
qed

text \<open>
  C4. An operation that always rejects with a retryable error, run by \<open>withRetry\<close> with
  \<open>maxAttempts = n\<close>, \<open>n \<ge> 1\<close>, and no abort signal, is invoked exactly \<open>n\<close> times,
  and \<open>withRetry\<close> rejects with exactly the error of the \<open>n\<close>-th invocation.
\<close>

theorem withRetry_exhaustion:
  assumes "\<forall>k. \<exists>e. fn k = Inl e \<and> canRetry (getRetryInfo e)"
    and "1 \<le> n"
  shows "invocations (withRetry fn (default_retry_options\<lparr>maxAttempts := n\<rparr>) rnd) = nat n
       \<and> outcome (withRetry fn (default_retry_options\<lparr>maxAttempts := n\<rparr>) rnd) = fn (nat n)"
proof -
  have "signal (default_retry_options\<lparr>maxAttempts := n\<rparr>) = None"
    by (simp add: default_retry_options_def)
  moreover have "1 \<le> maxAttempts (default_retry_options\<lparr>maxAttempts := n\<rparr>)"
    using assms(2) by simp
  ultimately show ?thesis
    unfolding withRetry_def
    using retry_loop_exhaust [OF assms(1), of "default_retry_options\<lparr>maxAttempts := n\<rparr>" 1]
    by simp
qed

theorem withRetry_exhaustion_witness:
  "invocations (withRetry (\<lambda>k. Inl (WhoopNetworkError ''down'' (JsError (replicate k CHR ''x''))))
      (default_retry_options\<lparr>maxAttempts := 3\<rparr>) (\<lambda>k. 0) :: unit retry_run) = 3
   \<and> outcome (withRetry (\<lambda>k. Inl (WhoopNetworkError ''down'' (JsError (replicate k CHR ''x''))))
      (default_retry_options\<lparr>maxAttempts := 3\<rparr>) (\<lambda>k. 0) :: unit retry_run)
     = Inl (WhoopNetworkError ''down'' (JsError ''xxx''))"
  using withRetry_exhaustion
    [of "\<lambda>k. Inl (WhoopNetworkError ''down'' (JsError (replicate k CHR ''x'')))" 3 "\<lambda>k. 0"]
  by (simp add: numeral_3_eq_3)

section \<open>Cache: time to live\<close>

lemma estimateSize_large:
  assumes "estimateSize P d = Inr size0" and "1024 < size0"
  shows "\<exists>s. JSON_stringify P d = Text s \<and> size0 = int (length s)"
  using assms by (auto simp: estimateSize_def split: js_text.splits)

lemma never_compressed:
  assumes q: "quoting_lengthens P"
    and e: "estimateSize P d = Inr size0" and big: "1024 < size0"
  shows "\<exists>compressedSize. estimateSize P (compress_data P d) = Inr compressedSize
           \<and> \<not> 5 * compressedSize < 4 * size0"
proof -
  from estimateSize_large [OF e big] obtain s where
    s: "JSON_stringify P d = Text s" "size0 = int (length s)" by blast
  from q have "case JSON_stringify P (JsString s) of Text t \<Rightarrow> length s < length t | _ \<Rightarrow> False"
    unfolding quoting_lengthens_def by blast
  then obtain t where t: "JSON_stringify P (JsString s) = Text t" "length s < length t"
    by (cases "JSON_stringify P (JsString s)") auto
  have "estimateSize P (compress_data P d) = Inr (int (length t))"
    using s(1) t(1) by (simp add: compress_data_def estimateSize_def)
  moreover have "\<not> 5 * int (length t) < 4 * size0"
    using s(2) t(2) by simp
  ultimately show ?thesis by blast
qed

lemma cache_set_Returned:
  assumes ret: "cache_set P c key v customTtl createdAt = Returned c1"
    and q: "compress (config c) \<longrightarrow> quoting_lengthens P"
  shows "\<exists>c2 size0. evict_loop c = Some c2 \<and> estimateSize P v = Inr size0 \<and>
           c1 = c2\<lparr>cache := AList.update key
                     \<lparr>data = v, timestamp = createdAt,
                      entry_ttl = (case customTtl of None \<Rightarrow> ttl (config c) | Some t \<Rightarrow> t),
                      accessCount = 1, lastAccessed = createdAt,
                      compressed = False, entry_size = size0\<rparr> (cache c2),
                   accessOrder := AList.update key (accessCounter c2 + 1) (accessOrder c2),
                   accessCounter := accessCounter c2 + 1,
                   totalSize := totalSize c2 + size0\<rparr>"
proof -
  from ret obtain size0 where e: "estimateSize P v = Inr size0"
    by (auto simp: cache_set_def split: sum.splits)
  show ?thesis
  proof (cases "compress (config c) \<and> size0 > 1024")
    case True
    with q never_compressed [OF _ e] obtain cs where
      "estimateSize P (compress_data P v) = Inr cs" "\<not> 5 * cs < 4 * size0" by blast
    with ret e True show ?thesis
      by (simp add: cache_set_def Let_def split: option.splits)
  next
    case False
    with ret e show ?thesis
      by (auto simp: cache_set_def Let_def split: option.splits)
  qed
qed

lemma cache_set_stores:
  assumes ret: "cache_set P c key v customTtl createdAt = Returned c1"
    and q: "compress (config c) \<longrightarrow> quoting_lengthens P"
  shows "\<exists>e. map_of (cache c1) key = Some e \<and> data e = v \<and> timestamp e = createdAt
           \<and> entry_ttl e = (case customTtl of None \<Rightarrow> ttl (config c) | Some t \<Rightarrow> t)
           \<and> \<not> compressed e"
  using cache_set_Returned [OF assms] by (auto simp: update_conv')

lemma cache_get_fresh:
  assumes "map_of (cache c) key = Some e" and "now - timestamp e \<le> entry_ttl e"
    and "\<not> compressed e"
  shows "fst (cache_get P c key now) = data e"
  using assms by (simp add: cache_get_def)

lemma cache_get_expired:
  assumes "map_of (cache c) key = Some e" and "now - timestamp e > entry_ttl e"
  shows "fst (cache_get P c key now) = JsUndef"
    and "map_of (cache (snd (cache_get P c key now))) key = None"
  using assms by (simp_all add: cache_get_def delete_conv')

text \<open>
  C5, as the code has it. An entry stored by \<open>set(key, value, ttl)\<close> at time
  \<open>createdAt\<close> is returned by \<open>get(key)\<close> at every time up to and including
  \<open>createdAt + ttl\<close>; at every later time \<open>get(key)\<close> returns \<^verbatim>\<open>undefined\<close> and
  removes the entry. (Where compression is enabled, the platform is assumed to lengthen a
  string when it quotes it, so that the value is stored as it is.)
\<close>

theorem cache_get_after_set:
  assumes "cache_set P c key v customTtl createdAt = Returned c1"
    and "compress (config c) \<longrightarrow> quoting_lengthens P"
  shows "(now \<le> createdAt + (case customTtl of None \<Rightarrow> ttl (config c) | Some t \<Rightarrow> t)
            \<longrightarrow> fst (cache_get P c1 key now) = v)
       \<and> (now > createdAt + (case customTtl of None \<Rightarrow> ttl (config c) | Some t \<Rightarrow> t)
            \<longrightarrow> fst (cache_get P c1 key now) = JsUndef
              \<and> map_of (cache (snd (cache_get P c1 key now))) key = None)"
proof -
  from cache_set_stores [OF assms] obtain e where
    e: "map_of (cache c1) key = Some e" "data e = v" "timestamp e = createdAt"
       "entry_ttl e = (case customTtl of None \<Rightarrow> ttl (config c) | Some t \<Rightarrow> t)"
       "\<not> compressed e" by blast
  show ?thesis
    using cache_get_fresh [OF e(1) _ e(5), of now P] cache_get_expired [OF e(1), of now P] e(2,3,4)
    by auto
qed

lemma example_quoting: "quoting_lengthens example_platform"
  by (simp add: quoting_lengthens_def example_platform_def)

theorem cache_get_after_set_witness:
  "case cache_set example_platform (new_cache default_cache_config) ''k'' (JsValue ''7'')
          (Some 1000) 0 of
     Returned c1 \<Rightarrow>
       fst (cache_get example_platform c1 ''k'' 1000) = JsValue ''7''
       \<and> fst (cache_get example_platform c1 ''k'' 1500) = JsUndef
   | _ \<Rightarrow> False"
proof -
  let ?c1 = "new_cache default_cache_config
            \<lparr>cache := [(''k'', \<lparr>data = JsValue ''7'', timestamp = 0, entry_ttl = 1000,
                accessCount = 1, lastAccessed = 0, compressed = False, entry_size = 1\<rparr>)],
             accessOrder := [(''k'', 1)], accessCounter := 1, totalSize := 1\<rparr>"
  have s: "cache_set example_platform (new_cache default_cache_config) ''k'' (JsValue ''7'')
             (Some 1000) 0 = Returned ?c1"
    by code_simp
  have q: "compress (config (new_cache default_cache_config :: string whoop_cache))
             \<longrightarrow> quoting_lengthens example_platform"
    by (simp add: new_cache_def default_cache_config_def)
  show ?thesis
    using cache_get_after_set [OF s q, of 1000] cache_get_after_set [OF s q, of 1500]
    by (simp add: s)
qed

text \<open>
  C5 as it is stated fails at the boundary: at the time \<open>createdAt + ttl\<close> itself
  (here \<open>0 + 1000\<close>) \<open>get\<close> still returns the stored value, since the test of the
  source is \<^verbatim>\<open>Date.now() - entry.timestamp > entry.ttl\<close>.
\<close>

theorem cache_get_at_ttl_boundary:
  "case cache_set example_platform (new_cache default_cache_config) ''k'' (JsValue ''7'')
          (Some 1000) 0 of
     Returned c1 \<Rightarrow>
       fst (cache_get example_platform c1 ''k'' (0 + 1000)) = JsValue ''7''
       \<and> fst (cache_get example_platform c1 ''k'' (0 + 1000)) \<noteq> JsUndef
   | _ \<Rightarrow> False"
  by code_simp

section \<open>Cache: a value that cannot be serialised\<close>

lemma cache_set_throws:
  assumes "JSON_stringify P d = Raises e"
  shows "cache_set P c key d customTtl now = Thrown e"
  using assms by (simp add: cache_set_def estimateSize_def)

text \<open>
  C7 fails on the code: \<open>estimateSize\<close> calls \<^verbatim>\<open>JSON.stringify\<close> with no handler, so
  \<open>set\<close> of a value with a circular reference throws the \<^verbatim>\<open>TypeError\<close> of
  \<^verbatim>\<open>JSON.stringify\<close> and stores nothing.
\<close>

theorem cache_set_circular_throws:
  "cache_set example_platform (new_cache default_cache_config) ''k'' (JsValue []) None 0
     = Thrown (JsError ''TypeError: cyclic object value'')"
  by (rule cache_set_throws) (simp add: example_platform_def)

section \<open>Cache: eviction\<close>

lemma evict_loop_Some_not_stuck:
  assumes "evict_loop x = Some z"
  shows "\<not> (maxSize (config x) \<le> int (length (cache x)) \<and> 0 < length (cache x)
            \<and> evictLRU x = x)"
proof (rule evict_loop.raw_induct
    [where P = "\<lambda>c r. \<not> (maxSize (config c) \<le> int (length (cache c)) \<and> 0 < length (cache c)
                          \<and> evictLRU c = c)", OF _ assms])
  fix f :: "'a whoop_cache \<Rightarrow> 'a whoop_cache option" and c ca
  assume IH: "\<And>x y. f x = Some y \<Longrightarrow>
      \<not> (maxSize (config x) \<le> int (length (cache x)) \<and> 0 < length (cache x) \<and> evictLRU x = x)"
    and eq: "(if maxSize (config c) \<le> int (length (cache c)) \<and> 0 < length (cache c)
              then f (evictLRU c) else Some c) = Some ca"
  show "\<not> (maxSize (config c) \<le> int (length (cache c)) \<and> 0 < length (cache c)
           \<and> evictLRU c = c)"
  proof
    assume st: "maxSize (config c) \<le> int (length (cache c)) \<and> 0 < length (cache c)
                \<and> evictLRU c = c"
    with eq have "f c = Some ca" by simp
    from IH [OF this] st show False by simp
  qed
qed

text \<open>A full cache that \<open>evictLRU\<close> leaves as it is keeps the loop of \<open>set\<close> running.\<close>

lemma evict_loop_stuck:
  assumes "maxSize (config c) \<le> int (length (cache c))" "0 < length (cache c)"
    and "evictLRU c = c"
  shows "evict_loop c = None"
  using evict_loop_Some_not_stuck [of c] assms by (cases "evict_loop c") auto

text \<open>
  C8 fails on the code when the least recently used key is the empty string: in a cache
  of capacity 1 that holds the key \<^verbatim>\<open>""\<close>, the insertion of a second key finds
  \<^verbatim>\<open>""\<close> as the oldest key, the test \<^verbatim>\<open>if (oldestKey)\<close> rejects it, nothing is
  evicted, and the loop of \<open>set\<close> never ends.
\<close>

theorem cache_set_empty_key_diverges:
  "case cache_set example_platform (new_cache (default_cache_config\<lparr>maxSize := 1\<rparr>)) []
          (JsValue ''1'') None 0 of
     Returned c1 \<Rightarrow> cache_set example_platform c1 ''b'' (JsValue ''2'') None 5 = Diverged
   | _ \<Rightarrow> False"
proof -
  let ?c1 = "\<lparr>cache = [([], \<lparr>data = JsValue ''1'', timestamp = 0, entry_ttl = 300000,
                accessCount = 1, lastAccessed = 0, compressed = False, entry_size = 1\<rparr>)],
              accessOrder = [([], 1)],
              config = \<lparr>ttl = 300000, maxSize = 1, compress = False, keyStrategy = Url\<rparr>,
              accessCounter = 1, totalSize = 1,
              stats = \<lparr>hits = 0, misses = 0, evictions = 0, compressionSavings = 0\<rparr>\<rparr>"
  have s1: "cache_set example_platform (new_cache (default_cache_config\<lparr>maxSize := 1\<rparr>)) []
              (JsValue ''1'') None 0 = Returned ?c1"
    by code_simp
  have stuck: "evict_loop ?c1 = None"
    by (rule evict_loop_stuck) (simp_all add: evictLRU_def)
  have s2: "cache_set example_platform ?c1 ''b'' (JsValue ''2'') None 5 = Diverged"
    using stuck by (simp add: cache_set_def estimateSize_def example_platform_def)
  show ?thesis using s2 by (simp add: s1)
qed

subsection \<open>Least recently used, for keys that are not empty\<close>

lemma evict_loop_idle:
  assumes "\<not> (maxSize (config c) \<le> int (length (cache c)) \<and> 0 < length (cache c))"
  shows "evict_loop c = Some c"
  by (subst evict_loop.simps) (use assms in auto)

lemma evict_loop_once:
  assumes "maxSize (config c) \<le> int (length (cache c)) \<and> 0 < length (cache c)"
    and "\<not> (maxSize (config (evictLRU c)) \<le> int (length (cache (evictLRU c)))
            \<and> 0 < length (cache (evictLRU c)))"
  shows "evict_loop c = Some (evictLRU c)"
  by (subst evict_loop.simps) (use assms evict_loop_idle [OF assms(2)] in auto)

lemma oldest_scan_keep:
  assumes "\<forall>(k', t) \<in> set rest. a \<le> t"
  shows "oldest_scan rest (Some k, Some a) = (Some k, Some a)"
  using assms by (induction rest) auto

lemma oldest_scan_first:
  assumes "\<forall>(k', t) \<in> set rest. a \<le> t"
  shows "oldest_scan ((k, a) # rest) (None, None) = (Some k, Some a)"
  using oldest_scan_keep [OF assms] by simp

lemma update_fresh:
  assumes "k \<notin> fst ` set al"
  shows "AList.update k v al = al @ [(k, v)]"
  using assms by (induction al) auto

lemma cache_set_returns:
  assumes e: "estimateSize P v = Inr size0"
    and q: "compress (config c) \<longrightarrow> quoting_lengthens P"
    and l: "evict_loop c = Some c2"
  shows "cache_set P c key v customTtl now =
           Returned (c2\<lparr>cache := AList.update key
                     \<lparr>data = v, timestamp = now,
                      entry_ttl = (case customTtl of None \<Rightarrow> ttl (config c) | Some t \<Rightarrow> t),
                      accessCount = 1, lastAccessed = now,
                      compressed = False, entry_size = size0\<rparr> (cache c2),
                   accessOrder := AList.update key (accessCounter c2 + 1) (accessOrder c2),
                   accessCounter := accessCounter c2 + 1,
                   totalSize := totalSize c2 + size0\<rparr>)"
proof (cases "compress (config c) \<and> size0 > 1024")
  case True
  with q never_compressed [OF _ e] obtain cs where
    "estimateSize P (compress_data P v) = Inr cs" "\<not> 5 * cs < 4 * size0" by blast
  with e l True show ?thesis
    by (simp add: cache_set_def Let_def)
next
  case False
  with e l show ?thesis
    by (auto simp: cache_set_def Let_def)
qed

lemma zip_upt_snoc:
  "zip (ks @ [k]) [a ..< a + length ks + 1] = zip ks [a ..< a + length ks] @ [(k, a + length ks)]"
  by (simp add: zip_append1)

text \<open>One \<open>set\<close> of a new key, after the loop of \<open>set\<close> has left the state \<open>c2\<close>.\<close>

lemma lru_set_after_loop:
  assumes l: "evict_loop c = Some c2" and o: "lru_order c2 ks" and k: "key \<notin> set ks"
    and e: "estimateSize P v = Inr size0"
    and q: "compress (config c) \<longrightarrow> quoting_lengthens P"
    and cf: "config c2 = config c"
  shows "\<exists>c'. cache_set P c key v customTtl now = Returned c' \<and> lru_order c' (ks @ [key])
           \<and> config c' = config c"
proof -
  let ?n = "accessCounter c2"
  let ?a = "?n + 1 - length ks"
  from o have keys: "map fst (cache c2) = ks" and len: "length ks \<le> ?n"
    and ao: "accessOrder c2 = zip ks [?a ..< ?n + 1]"
    by (simp_all add: lru_order_def)
  have a: "?a + length ks = ?n + 1" using len by simp
  let ?c' = "c2\<lparr>cache := AList.update key
                     \<lparr>data = v, timestamp = now,
                      entry_ttl = (case customTtl of None \<Rightarrow> ttl (config c) | Some t \<Rightarrow> t),
                      accessCount = 1, lastAccessed = now,
                      compressed = False, entry_size = size0\<rparr> (cache c2),
                   accessOrder := AList.update key (accessCounter c2 + 1) (accessOrder c2),
                   accessCounter := accessCounter c2 + 1,
                   totalSize := totalSize c2 + size0\<rparr>"
  have ret: "cache_set P c key v customTtl now = Returned ?c'"
    by (rule cache_set_returns [OF e q l])
  have k1: "map fst (cache ?c') = ks @ [key]"
    using keys k by (simp add: update_keys)
  have "key \<notin> fst ` set (accessOrder c2)"
    unfolding ao using k by (auto dest: set_zip_leftD)
  then have "accessOrder ?c' = zip ks [?a ..< ?n + 1] @ [(key, ?n + 1)]"
    by (simp add: update_fresh ao)
  also have "\<dots> = zip (ks @ [key]) [?a ..< ?a + length ks + 1]"
    using zip_upt_snoc [of ks key ?a] a by simp
  finally have k2: "accessOrder ?c' = zip (ks @ [key]) [?a ..< ?n + 2]"
    using a by simp
  have k3: "accessCounter ?c' + 1 - length (ks @ [key]) = ?a"
    using len by simp
  have "lru_order ?c' (ks @ [key])"
    unfolding lru_order_def using k1 k2 k3 len by simp
  with ret cf show ?thesis by simp
qed

text \<open>
  \<open>evictLRU\<close> on such a state removes the first key of the order, when that key is
  not the empty string.
\<close>

lemma lru_evictLRU:
  assumes o: "lru_order c (k1 # ks)" and d: "distinct (k1 # ks)" and ne: "k1 \<noteq> []"
  shows "lru_order (evictLRU c) ks" and "config (evictLRU c) = config c"
    and "length (cache (evictLRU c)) = length ks"
proof -
  let ?n = "accessCounter c"
  let ?a = "?n + 1 - length (k1 # ks)"
  from o have keys: "map fst (cache c) = k1 # ks" and len: "length (k1 # ks) \<le> ?n"
    and ao: "accessOrder c = zip (k1 # ks) [?a ..< ?n + 1]"
    by (simp_all add: lru_order_def)
  have up: "[?a ..< ?n + 1] = ?a # [?a + 1 ..< ?n + 1]"
    using len by (simp add: upt_rec)
  have ao': "accessOrder c = (k1, ?a) # zip ks [?a + 1 ..< ?n + 1]"
    unfolding ao by (subst up) simp
  have "\<forall>(k', t) \<in> set (zip ks [?a + 1 ..< ?n + 1]). ?a \<le> t"
  proof (clarify)
    fix k' t
    assume "(k', t) \<in> set (zip ks [?a + 1 ..< ?n + 1])"
    then have "t \<in> set [?a + 1 ..< ?n + 1]" by (rule set_zip_rightD)
    then show "?a \<le> t" by (simp del: upt_Suc)
  qed
  then have scan: "oldest_scan (accessOrder c) (None, None) = (Some k1, Some ?a)"
    unfolding ao' by (rule oldest_scan_first)
  have ev: "evictLRU c =
      (snd (cache_delete c k1))
        \<lparr>stats := (stats (snd (cache_delete c k1)))
           \<lparr>evictions := evictions (stats (snd (cache_delete c k1))) + 1\<rparr>\<rparr>"
    using scan ne by (simp add: evictLRU_def Let_def)
  have k1ks: "k1 \<notin> set ks" using d by simp
  have c1: "map fst (cache (evictLRU c)) = ks"
    unfolding ev using keys k1ks by (simp add: cache_delete_def delete_keys)
  have "k1 \<notin> fst ` set (zip ks [?a + 1 ..< ?n + 1])"
    using k1ks by (auto dest: set_zip_leftD)
  then have c2: "accessOrder (evictLRU c) = zip ks [?a + 1 ..< ?n + 1]"
    unfolding ev by (simp add: cache_delete_def ao')
  have c3: "accessCounter (evictLRU c) = ?n"
    unfolding ev by (simp add: cache_delete_def)
  have "?a + 1 = ?n + 1 - length ks" using len by simp
  with c1 c2 c3 len show "lru_order (evictLRU c) ks"
    by (simp add: lru_order_def)
  show "config (evictLRU c) = config c"
    unfolding ev by (simp add: cache_delete_def)
  from c1 show "length (cache (evictLRU c)) = length ks"
    by (metis length_map)
qed

lemma lru_set_room:
  assumes o: "lru_order c ks" and k: "key \<notin> set ks"
    and room: "int (length ks) < maxSize (config c)"
    and e: "estimateSize P v = Inr size0"
    and q: "compress (config c) \<longrightarrow> quoting_lengthens P"
  shows "\<exists>c'. cache_set P c key v customTtl now = Returned c' \<and> lru_order c' (ks @ [key])
           \<and> config c' = config c"
proof -
  from o have "length (cache c) = length ks"
    by (metis lru_order_def length_map)
  with room have "evict_loop c = Some c"
    by (intro evict_loop_idle) simp
  from lru_set_after_loop [OF this o k e q] show ?thesis by simp
qed

lemma lru_set_full:
  assumes o: "lru_order c (k1 # ks)" and d: "distinct (k1 # ks)" and ne: "k1 \<noteq> []"
    and k: "key \<notin> set ks"
    and full: "int (length (k1 # ks)) = maxSize (config c)"
    and e: "estimateSize P v = Inr size0"
    and q: "compress (config c) \<longrightarrow> quoting_lengthens P"
  shows "\<exists>c'. cache_set P c key v customTtl now = Returned c' \<and> lru_order c' (ks @ [key])
           \<and> config c' = config c"
proof -
  from o have lc: "length (cache c) = length (k1 # ks)"
    by (metis lru_order_def length_map)
  note ev = lru_evictLRU [OF o d ne]
  have "evict_loop c = Some (evictLRU c)"
    by (rule evict_loop_once) (use lc full ev(2,3) in simp_all)
  from lru_set_after_loop [OF this ev(1) k e q ev(2)] show ?thesis .
qed

lemma cache_sets_snoc:
  "cache_sets P c (ins @ [(key, v, now)]) =
     (case cache_sets P c ins of
        Returned c' \<Rightarrow> cache_set P c' key v None now
      | Thrown e \<Rightarrow> Thrown e
      | Diverged \<Rightarrow> Diverged)"
proof (induction ins arbitrary: c)
  case Nil
  show ?case by (cases "cache_set P c key v None now") simp_all
next
  case (Cons x xs)
  obtain k' v' t' where x: "x = (k', v', t')" by (cases x)
  show ?case
    unfolding x using Cons.IH by (cases "cache_set P c k' v' None t'") simp_all
qed

lemma lru_order_new: "lru_order (new_cache cfg) []"
  by (simp add: lru_order_def new_cache_def)

text \<open>Filling a new cache up to its capacity evicts nothing.\<close>

lemma lru_fill:
  assumes "int (length ins) \<le> maxSize cfg" and "distinct (map fst ins)"
    and "\<forall>(k, v, t) \<in> set ins. \<exists>s. estimateSize P v = Inr s"
    and "compress cfg \<longrightarrow> quoting_lengthens P"
  shows "\<exists>c. cache_sets P (new_cache cfg) ins = Returned c \<and> lru_order c (map fst ins)
           \<and> config c = cfg"
  using assms(1,2,3)
proof (induction ins rule: rev_induct)
  case Nil
  show ?case by (simp add: lru_order_new) (simp add: new_cache_def)
next
  case (snoc x xs)
  obtain k v t where x: "x = (k, v, t)" by (cases x)
  from snoc.prems have "int (length xs) \<le> maxSize cfg" "distinct (map fst xs)"
    "\<forall>(k, v, t) \<in> set xs. \<exists>s. estimateSize P v = Inr s"
    by simp_all
  from snoc.IH [OF this] obtain c where
    c: "cache_sets P (new_cache cfg) xs = Returned c" "lru_order c (map fst xs)" "config c = cfg"
    by blast
  from snoc.prems x have k: "k \<notin> set (map fst xs)"
    and room: "int (length (map fst xs)) < maxSize (config c)"
    using c(3) by simp_all
  from snoc.prems(3) x obtain s where s: "estimateSize P v = Inr s" by auto
  from assms(4) c(3) have q: "compress (config c) \<longrightarrow> quoting_lengthens P" by simp
  from lru_set_room [OF c(2) k room s q, of None t] obtain c' where
    "cache_set P c k v None t = Returned c'" "lru_order c' (map fst xs @ [k])" "config c' = config c"
    by blast
  with c show ?case
    by (simp add: x cache_sets_snoc)
qed

text \<open>
  The eviction of the first-inserted key, for a first key that is not the empty string: in a cache of
  capacity \<open>N \<ge> 1\<close>, \<open>N + 1\<close> calls of \<open>set\<close> with distinct keys, and no reads,
  return, and they leave exactly the keys after the first one, in the order of insertion.
\<close>

lemma lru_first_inserted_evicted:
  assumes full: "int (length ins) = maxSize cfg" and "ins \<noteq> []"
    and d: "distinct (map fst (ins @ [(key, v, now)]))"
    and ne: "fst (hd ins) \<noteq> []"
    and est: "\<forall>(k, v, t) \<in> set (ins @ [(key, v, now)]). \<exists>s. estimateSize P v = Inr s"
    and q: "compress cfg \<longrightarrow> quoting_lengthens P"
  shows "\<exists>c. cache_sets P (new_cache cfg) (ins @ [(key, v, now)]) = Returned c
           \<and> map fst (cache c) = tl (map fst ins) @ [key]"
proof -
  from full d est have "int (length ins) \<le> maxSize cfg" "distinct (map fst ins)"
    "\<forall>(k, v, t) \<in> set ins. \<exists>s. estimateSize P v = Inr s"
    by simp_all
  from lru_fill [OF this q] obtain c where
    c: "cache_sets P (new_cache cfg) ins = Returned c" "lru_order c (map fst ins)" "config c = cfg"
    by blast
  from \<open>ins \<noteq> []\<close> obtain x xs where ins: "ins = x # xs" by (cases ins) auto
  from est obtain s where s: "estimateSize P v = Inr s" by auto
  have o: "lru_order c (fst x # map fst xs)" using c(2) ins by simp
  have d': "distinct (fst x # map fst xs)" using d ins by simp
  have k: "key \<notin> set (map fst xs)" using d ins by simp
  have f: "int (length (fst x # map fst xs)) = maxSize (config c)" using full ins c(3) by simp
  have q': "compress (config c) \<longrightarrow> quoting_lengthens P" using q c(3) by simp
  from ne ins have "fst x \<noteq> []" by simp
  from lru_set_full [OF o d' this k f s q', of None now] obtain c' where
    c': "cache_set P c key v None now = Returned c'" "lru_order c' (map fst xs @ [key])"
    by blast
  have "cache_sets P (new_cache cfg) (ins @ [(key, v, now)]) = Returned c'"
    using c(1) c'(1) by (simp add: cache_sets_snoc)
  moreover have "map fst (cache c') = tl (map fst ins) @ [key]"
    using c'(2) ins by (simp add: lru_order_def)
  ultimately show ?thesis by blast
qed

lemma evictLRU_victim:
  assumes "fst (oldest_scan (accessOrder c) (None, None)) = Some k" and "k \<noteq> []"
  shows "map fst (cache (evictLRU c)) = removeAll k (map fst (cache c))"
    and "config (evictLRU c) = config c"
  using assms by (simp_all add: evictLRU_def Let_def cache_delete_def delete_keys)

lemma set_update_subset: "set (AList.update k v al) \<subseteq> insert (k, v) (set al)"
  by (induction al) auto

text \<open>
  The survival of a key that was read, for a victim that is not the empty string: in a full cache of
  capacity \<open>N \<ge> 2\<close> that was filled without reads, a key is read by a \<open>get\<close> that
  finds it alive, and then a new key is set. The key that was read is still present,
  and the key that is gone is the oldest key that was not read.
\<close>

lemma lru_read_survives:
  assumes o: "lru_order c ks" and d: "distinct ks"
    and full: "int (length ks) = maxSize (config c)" and two: "2 \<le> length ks"
    and hit: "map_of (cache c) kj = Some e" "now - timestamp e \<le> entry_ttl e"
    and k: "key \<notin> set ks"
    and ne: "(if kj = hd ks then ks ! 1 else hd ks) \<noteq> []"
    and est: "estimateSize P v = Inr size0"
    and q: "compress (config c) \<longrightarrow> quoting_lengthens P"
  shows "\<exists>c'. cache_set P (snd (cache_get P c kj now)) key v customTtl now' = Returned c'
           \<and> map fst (cache c') = remove1 (if kj = hd ks then ks ! 1 else hd ks) ks @ [key]
           \<and> kj \<in> set (map fst (cache c'))"
proof -
  let ?n = "accessCounter c"
  let ?a = "?n + 1 - length ks"
  let ?victim = "if kj = hd ks then ks ! 1 else hd ks"
  let ?cg = "snd (cache_get P c kj now)"
  from o have keys: "map fst (cache c) = ks" and len: "length ks \<le> ?n"
    and ao: "accessOrder c = zip ks [?a ..< ?n + 1]"
    by (simp_all add: lru_order_def)
  from two obtain k1 k2 ks' where ks: "ks = k1 # k2 # ks'"
    by (cases ks; cases "tl ks") auto
  from hit(1) have "kj \<in> fst ` set (cache c)"
    by (auto dest: map_of_SomeD intro: rev_image_eqI)
  with keys have kj: "kj \<in> set ks" by (metis set_map)
  have cg: "?cg = c\<lparr>cache := AList.update kj
                          (e\<lparr>accessCount := accessCount e + 1, lastAccessed := now\<rparr>) (cache c),
                      accessOrder := AList.update kj (?n + 1) (accessOrder c),
                      accessCounter := ?n + 1,
                      stats := (stats c)\<lparr>hits := hits (stats c) + 1\<rparr>\<rparr>"
    using hit by (simp add: cache_get_def)
  have keys_g: "map fst (cache ?cg) = ks"
    unfolding cg using keys kj by (simp add: update_keys)
  have up: "[?a ..< ?n + 1] = ?a # (?a + 1) # [?a + 2 ..< ?n + 1]"
    using len two by (simp add: upt_rec)
  have ao': "accessOrder c = (k1, ?a) # (k2, ?a + 1) # zip ks' [?a + 2 ..< ?n + 1]"
    unfolding ao by (subst up) (simp add: ks)
  have tail: "?a + 2 \<le> t" if "(k', t) \<in> set (zip ks' [?a + 2 ..< ?n + 1])" for k' t
  proof -
    from that have "t \<in> set [?a + 2 ..< ?n + 1]" by (rule set_zip_rightD)
    then show ?thesis by (simp del: upt_Suc)
  qed
  have small: "?a + 1 < ?n + 1" using len two by simp
  have scan: "fst (oldest_scan (accessOrder ?cg) (None, None)) = Some ?victim"
  proof (cases "kj = k1")
    case True
    have "\<forall>(k', t) \<in> set (zip ks' [?a + 2 ..< ?n + 1]). ?a + 1 \<le> t"
    proof (clarify)
      fix k' t
      assume "(k', t) \<in> set (zip ks' [?a + 2 ..< ?n + 1])"
      from tail [OF this] show "?a + 1 \<le> t" by simp
    qed
    from oldest_scan_keep [OF this, of k2] small True show ?thesis
      unfolding cg by (simp add: ao' ks)
  next
    case False
    have "\<forall>(k', t) \<in> set (AList.update kj (?n + 1) ((k2, ?a + 1) # zip ks' [?a + 2 ..< ?n + 1])).
            ?a \<le> t"
    proof (clarify)
      fix k' t
      assume "(k', t) \<in> set (AList.update kj (?n + 1) ((k2, ?a + 1) # zip ks' [?a + 2 ..< ?n + 1]))"
      then have "(k', t) \<in> insert (kj, ?n + 1) (set ((k2, ?a + 1) # zip ks' [?a + 2 ..< ?n + 1]))"
        by (rule subsetD [OF set_update_subset])
      then consider "t = ?n + 1" | "t = ?a + 1" | "(k', t) \<in> set (zip ks' [?a + 2 ..< ?n + 1])"
        by auto
      then show "?a \<le> t"
      proof cases
        case 3
        from tail [OF this] show ?thesis by simp
      qed simp_all
    qed
    from oldest_scan_first [OF this, of k1] False show ?thesis
      unfolding cg by (simp add: ao' ks)
  qed
  note ev = evictLRU_victim [OF scan ne]
  have vin: "?victim \<in> set ks" by (simp add: ks)
  have keys_e: "map fst (cache (evictLRU ?cg)) = remove1 ?victim ks"
    using ev(1) keys_g d by (simp add: distinct_remove1_removeAll)
  have "length (cache (evictLRU ?cg)) = length (map fst (cache (evictLRU ?cg)))"
    by simp
  also have "\<dots> = length (remove1 ?victim ks)"
    by (simp only: keys_e)
  also have "\<dots> = length ks - 1"
    using vin by (simp only: length_remove1 if_True)
  finally have len_e: "length (cache (evictLRU ?cg)) = length ks - 1" .
  have len_g: "length (cache ?cg) = length ks"
    using keys_g by (metis length_map)
  have cfg_g: "config ?cg = config c" unfolding cg by simp
  have loop: "evict_loop ?cg = Some (evictLRU ?cg)"
    by (rule evict_loop_once) (use len_g len_e full two ev(2) cfg_g ks in simp_all)
  have q': "compress (config ?cg) \<longrightarrow> quoting_lengthens P" using q cfg_g by simp
  let ?c' = "(evictLRU ?cg)\<lparr>cache := AList.update key
                     \<lparr>data = v, timestamp = now',
                      entry_ttl = (case customTtl of None \<Rightarrow> ttl (config ?cg) | Some t \<Rightarrow> t),
                      accessCount = 1, lastAccessed = now',
                      compressed = False, entry_size = size0\<rparr> (cache (evictLRU ?cg)),
                   accessOrder := AList.update key (accessCounter (evictLRU ?cg) + 1)
                                    (accessOrder (evictLRU ?cg)),
                   accessCounter := accessCounter (evictLRU ?cg) + 1,
                   totalSize := totalSize (evictLRU ?cg) + size0\<rparr>"
  have ret: "cache_set P ?cg key v customTtl now' = Returned ?c'"
    by (rule cache_set_returns [OF est q' loop])
  have "key \<notin> set (remove1 ?victim ks)"
    using k notin_set_remove1 by fast
  then have keys': "map fst (cache ?c') = remove1 ?victim ks @ [key]"
    using keys_e by (simp add: update_keys)
  have "?victim \<noteq> kj" using d by (auto simp: ks)
  with kj have "kj \<in> set (remove1 ?victim ks)" by simp
  then have "kj \<in> set (map fst (cache ?c'))" using keys' by simp
  with ret keys' show ?thesis by blast
qed

section \<open>Cache: memory accounting\<close>

subsection \<open>What the accounting is preserved by\<close>

lemma sizes_delete:
  assumes "distinct (map fst al)"
  shows "sum_list (map (\<lambda>(k, e). entry_size e) (AList.delete key al))
           = sum_list (map (\<lambda>(k, e). entry_size e) al)
             - (case map_of al key of None \<Rightarrow> 0 | Some e \<Rightarrow> entry_size e)"
  using assms
proof (induction al)
  case Nil
  then show ?case by simp
next
  case (Cons p ps)
  show ?case
  proof (cases "fst p = key")
    case True
    with Cons.prems have "key \<notin> fst ` set ps" by auto
    then have "AList.delete key ps = ps" by simp
    with True show ?thesis by (cases p) simp
  next
    case False
    with Cons show ?thesis by (cases p) simp
  qed
qed

lemma sizes_update:
  assumes "distinct (map fst al)"
  shows "sum_list (map (\<lambda>(k, e). entry_size e) (AList.update key e' al))
           = sum_list (map (\<lambda>(k, e). entry_size e) al)
             - (case map_of al key of None \<Rightarrow> 0 | Some e \<Rightarrow> entry_size e) + entry_size e'"
  using assms
proof (induction al)
  case Nil
  then show ?case by simp
next
  case (Cons p ps)
  then show ?case by (cases p) auto
qed

lemma accounted_new: "accounted (new_cache cfg)"
  by (simp add: accounted_def new_cache_def recorded_sizes_def)

lemma accounted_clear: "accounted (cache_clear c)"
  by (simp add: accounted_def cache_clear_def recorded_sizes_def)

lemma accounted_delete:
  assumes "accounted c"
  shows "accounted (snd (cache_delete c key))"
  using assms sizes_delete [of "cache c" key]
  by (auto simp: accounted_def cache_delete_def recorded_sizes_def distinct_delete
      split: option.splits)

lemma accounted_get:
  assumes "accounted c"
  shows "accounted (snd (cache_get P c key now))"
proof (cases "map_of (cache c) key")
  case None
  with assms show ?thesis
    by (simp add: accounted_def cache_get_def recorded_sizes_def)
next
  case (Some e)
  show ?thesis
  proof (cases "now - timestamp e > entry_ttl e")
    case True
    with Some assms sizes_delete [of "cache c" key] show ?thesis
      by (simp add: accounted_def cache_get_def recorded_sizes_def distinct_delete)
  next
    case False
    with Some assms
      sizes_update [of "cache c" key "e\<lparr>accessCount := accessCount e + 1, lastAccessed := now\<rparr>"]
    show ?thesis
      by (simp add: accounted_def cache_get_def recorded_sizes_def distinct_update)
  qed
qed

lemma accounted_stats: "accounted (c\<lparr>stats := st\<rparr>) = accounted c"
  by (simp add: accounted_def recorded_sizes_def)

lemma accounted_evictLRU:
  assumes "accounted c"
  shows "accounted (evictLRU c)"
  using assms accounted_delete [OF assms]
  by (auto simp: evictLRU_def Let_def accounted_stats split: option.splits)

lemma accounted_evict_loop:
  assumes "evict_loop c = Some c'"
  shows "accounted c \<longrightarrow> accounted c'"
proof (rule evict_loop.raw_induct [where P = "\<lambda>x y. accounted x \<longrightarrow> accounted y", OF _ assms])
  fix f :: "'a whoop_cache \<Rightarrow> 'a whoop_cache option" and x y
  assume IH: "\<And>x y. f x = Some y \<Longrightarrow> accounted x \<longrightarrow> accounted y"
    and eq: "(if maxSize (config x) \<le> int (length (cache x)) \<and> 0 < length (cache x)
              then f (evictLRU x) else Some x) = Some y"
  show "accounted x \<longrightarrow> accounted y"
  proof (cases "maxSize (config x) \<le> int (length (cache x)) \<and> 0 < length (cache x)")
    case True
    with eq have "f (evictLRU x) = Some y" by simp
    from IH [OF this] accounted_evictLRU show ?thesis by blast
  next
    case False
    then have "(if maxSize (config x) \<le> int (length (cache x)) \<and> 0 < length (cache x)
              then f (evictLRU x) else Some x) = Some x"
      by (rule if_not_P)
    with eq show ?thesis by simp
  qed
qed

text \<open>What a call of \<open>set\<close> that returns has done, whichever form of the value it kept.\<close>

lemma cache_set_shape:
  assumes "cache_set P c key d customTtl now = Returned c'"
  shows "\<exists>st c2 e. evict_loop (c\<lparr>stats := st\<rparr>) = Some c2
           \<and> c' = c2\<lparr>cache := AList.update key e (cache c2),
                     accessOrder := AList.update key (accessCounter c2 + 1) (accessOrder c2),
                     accessCounter := accessCounter c2 + 1,
                     totalSize := totalSize c2 + entry_size e\<rparr>"
proof -
  from assms obtain size0 where e: "estimateSize P d = Inr size0"
    by (auto simp: cache_set_def split: sum.splits)
  have same: "c\<lparr>stats := stats c\<rparr> = c" by simp
  show ?thesis
  proof (cases "compress (config c) \<and> size0 > 1024")
    case False
    with assms e obtain c2 where "evict_loop c = Some c2"
      and "c' = c2\<lparr>cache := AList.update key
                     \<lparr>data = d, timestamp = now,
                      entry_ttl = (case customTtl of None \<Rightarrow> ttl (config c) | Some t \<Rightarrow> t),
                      accessCount = 1, lastAccessed = now,
                      compressed = False, entry_size = size0\<rparr> (cache c2),
                   accessOrder := AList.update key (accessCounter c2 + 1) (accessOrder c2),
                   accessCounter := accessCounter c2 + 1,
                   totalSize := totalSize c2 + size0\<rparr>"
      by (auto simp: cache_set_def Let_def split: option.splits)
    then show ?thesis
      by (intro exI [of _ "stats c"] exI [of _ c2]
          exI [of _ "\<lparr>data = d, timestamp = now,
                      entry_ttl = (case customTtl of None \<Rightarrow> ttl (config c) | Some t \<Rightarrow> t),
                      accessCount = 1, lastAccessed = now,
                      compressed = False, entry_size = size0\<rparr>"]) simp
  next
    case True
    with assms e obtain cs where cs: "estimateSize P (compress_data P d) = Inr cs"
      by (auto simp: cache_set_def Let_def split: sum.splits)
    show ?thesis
    proof (cases "5 * cs < 4 * size0")
      case small: True
      let ?st = "(stats c)\<lparr>compressionSavings := compressionSavings (stats c) + (size0 - cs)\<rparr>"
      let ?e = "\<lparr>data = compress_data P d, timestamp = now,
                 entry_ttl = (case customTtl of None \<Rightarrow> ttl (config c) | Some t \<Rightarrow> t),
                 accessCount = 1, lastAccessed = now, compressed = True, entry_size = cs\<rparr>"
      from assms e True cs small obtain c2 where "evict_loop (c\<lparr>stats := ?st\<rparr>) = Some c2"
        and "c' = c2\<lparr>cache := AList.update key ?e (cache c2),
                   accessOrder := AList.update key (accessCounter c2 + 1) (accessOrder c2),
                   accessCounter := accessCounter c2 + 1,
                   totalSize := totalSize c2 + cs\<rparr>"
        by (auto simp: cache_set_def Let_def split: option.splits)
      then show ?thesis
        by (intro exI [of _ ?st] exI [of _ c2] exI [of _ ?e]) simp
    next
      case big: False
      let ?e = "\<lparr>data = d, timestamp = now,
                 entry_ttl = (case customTtl of None \<Rightarrow> ttl (config c) | Some t \<Rightarrow> t),
                 accessCount = 1, lastAccessed = now, compressed = False, entry_size = size0\<rparr>"
      from assms e True cs big obtain c2 where "evict_loop c = Some c2"
        and "c' = c2\<lparr>cache := AList.update key ?e (cache c2),
                   accessOrder := AList.update key (accessCounter c2 + 1) (accessOrder c2),
                   accessCounter := accessCounter c2 + 1,
                   totalSize := totalSize c2 + size0\<rparr>"
        by (auto simp: cache_set_def Let_def split: option.splits)
      then show ?thesis
        by (intro exI [of _ "stats c"] exI [of _ c2] exI [of _ ?e]) simp
    qed
  qed
qed

text \<open>
  \<open>set\<close> keeps the keys distinct, and it moves the running total away from the sum of
  the recorded sizes by exactly the size of the entry it overwrites.
\<close>

lemma cache_set_drift:
  assumes "cache_set P c key d customTtl now = Returned c'" and "accounted c"
  shows "\<exists>st c2. evict_loop (c\<lparr>stats := st\<rparr>) = Some c2
           \<and> distinct (map fst (cache c'))
           \<and> totalSize c' = recorded_sizes c'
                + (case map_of (cache c2) key of None \<Rightarrow> 0 | Some old \<Rightarrow> entry_size old)"
proof -
  from cache_set_shape [OF assms(1)] obtain st c2 e where
    l: "evict_loop (c\<lparr>stats := st\<rparr>) = Some c2"
    and c': "c' = c2\<lparr>cache := AList.update key e (cache c2),
                     accessOrder := AList.update key (accessCounter c2 + 1) (accessOrder c2),
                     accessCounter := accessCounter c2 + 1,
                     totalSize := totalSize c2 + entry_size e\<rparr>"
    by blast
  from accounted_evict_loop [OF l] assms(2) have a2: "accounted c2"
    by (simp add: accounted_stats)
  then have d2: "distinct (map fst (cache c2))" and t2: "totalSize c2 = recorded_sizes c2"
    by (simp_all add: accounted_def)
  have "distinct (map fst (cache c'))"
    unfolding c' using d2 by (simp add: distinct_update)
  moreover have "totalSize c' = recorded_sizes c'
      + (case map_of (cache c2) key of None \<Rightarrow> 0 | Some old \<Rightarrow> entry_size old)"
    unfolding c' using t2 sizes_update [OF d2, of key e]
    by (simp add: recorded_sizes_def)
  ultimately show ?thesis using l by blast
qed

text \<open>
  C10 fails on the code when \<open>set\<close> overwrites a key: the size of the new entry is added
  to \<open>totalSize\<close>, and the size of the entry it replaces is not taken off. After two
  \<open>set\<close>s of one key with a value of size 3, \<open>getStats\<close> reports 6 bytes for a cache
  whose only entry has size 3.
\<close>

theorem cache_set_overwrite_total:
  "case cache_set example_platform (new_cache default_cache_config) ''a'' (JsValue ''123'')
          None 0 of
     Returned c1 \<Rightarrow>
       (case cache_set example_platform c1 ''a'' (JsValue ''123'') None 1 of
          Returned c2 \<Rightarrow>
            totalMemory (getStats c1) = 3 \<and> recorded_sizes c1 = 3
            \<and> totalMemory (getStats c2) = 6 \<and> recorded_sizes c2 = 3
        | _ \<Rightarrow> False)
   | _ \<Rightarrow> False"
  by code_simp

section \<open>Token manager: expiry\<close>

text \<open>
  With one clock reading for both reads, the answer of \<open>isTokenExpired\<close> does not
  depend on the time at all: it is a property of \<open>expires_in\<close> alone.
\<close>

lemma isTokenExpired_same_reading:
  "isTokenExpired c (Some t) now now = (expires_in t \<noteq> 0 \<and> expires_in t * 1000 \<le> 300000)"
  by (simp add: isTokenExpired_def)

text \<open>
  A token set with \<open>expires_in = 3600\<close> is never reported as expired, whenever it was
  stored, unless 55 minutes pass between the two clock reads of one call.
\<close>

lemma isTokenExpired_hour_token:
  assumes "expires_in t = 3600" and "now2 - now1 < 3300000"
  shows "\<not> isTokenExpired c (Some t) now1 now2"
  using assms by (simp add: isTokenExpired_def)

text \<open>
  C1 fails on the code. A token set with \<open>expires_in = 3600\<close> is stored at time 0. One
  hour later, at 3600000 ms, the rule of the specification says it has expired, but
  \<open>isTokenExpired\<close> answers no, and \<open>getValidAccessToken\<close> returns the old access
  token and sends no refresh request.
\<close>

theorem isTokenExpired_ignores_issue_time:
  "expired_by_spec 0 (example_tokens 3600) 3600000
   \<and> \<not> isTokenExpired (setTokens (new_oauth_client example_config) (example_tokens 3600))
          None 3600000 3600000
   \<and> result_of (call_getValidAccessToken
         (new_world (setTokens (new_oauth_client example_config) (example_tokens 3600)))
         1 3600000 3600000) 1 = Some (Inr (AccessTokenValue ''old-access''))
   \<and> http_calls (call_getValidAccessToken
         (new_world (setTokens (new_oauth_client example_config) (example_tokens 3600)))
         1 3600000 3600000) = []"
  by (simp add: expired_by_spec_def example_tokens_def isTokenExpired_def setTokens_def
      new_oauth_client_def call_getValidAccessToken_def new_world_def finish_def result_of_def)

section \<open>Token manager: one refresh in flight\<close>

lemma refresh_begin_joins:
  assumes "refreshPromise (client w) = Some p" and "refresh_token_at_hand w ov"
  shows "refresh_begin w ov = (Inr (p, False), w)"
  using assms by (simp add: refresh_begin_def refresh_token_at_hand_def Let_def)

lemma refresh_begin_starts:
  assumes "refreshPromise (client w) = None" and "refresh_token_at_hand w ov"
  shows "refresh_begin w ov =
           (Inr (length (http_calls w), True),
            w\<lparr>http_calls := http_calls w @
                 [or_else ov (case tokens (client w) of None \<Rightarrow> [] | Some t \<Rightarrow> refresh_token t)],
              client := (client w)\<lparr>refreshPromise := Some (length (http_calls w))\<rparr>\<rparr>)"
  using assms by (simp add: refresh_begin_def refresh_token_at_hand_def Let_def)

lemma awaits_suspend: "awaits (suspend w c k (p, l)) c p"
  by (simp add: awaits_def suspend_def)

lemma awaits_suspend_other: "awaits w c p \<Longrightarrow> awaits (suspend w c' k pl) c p"
  by (auto simp: awaits_def suspend_def)

lemma call_refresh_joins:
  assumes "refreshPromise (client w) = Some p" and "refresh_token_at_hand w ov"
  shows "call_refreshAccessToken w c ov = suspend w c RefreshCall (p, False)"
  using refresh_begin_joins [OF assms] by (simp add: call_refreshAccessToken_def)

lemma call_refresh_starts:
  assumes "refreshPromise (client w) = None" and "refresh_token_at_hand w ov"
  shows "call_refreshAccessToken w c ov =
           suspend (w\<lparr>http_calls := http_calls w @
                 [or_else ov (case tokens (client w) of None \<Rightarrow> [] | Some t \<Rightarrow> refresh_token t)],
              client := (client w)\<lparr>refreshPromise := Some (length (http_calls w))\<rparr>\<rparr>)
             c RefreshCall (length (http_calls w), True)"
  using refresh_begin_starts [OF assms] by (simp add: call_refreshAccessToken_def)

lemma call_getValid_joins:
  assumes "refreshPromise (client w) = Some p" and "tokens (client w) = Some t"
    and "refresh_token t \<noteq> []" and "isTokenExpired (client w) (Some t) now1 now2"
  shows "call_getValidAccessToken w c now1 now2 = suspend w c GetValidCall (p, False)"
proof -
  have "refresh_token_at_hand w []"
    using assms(2,3) by (simp add: refresh_token_at_hand_def or_else_def)
  from refresh_begin_joins [OF assms(1) this] assms(2,4) show ?thesis
    by (simp add: call_getValidAccessToken_def)
qed

lemma call_getValid_starts:
  assumes "refreshPromise (client w) = None" and "tokens (client w) = Some t"
    and "refresh_token t \<noteq> []" and "isTokenExpired (client w) (Some t) now1 now2"
  shows "call_getValidAccessToken w c now1 now2 =
           suspend (w\<lparr>http_calls := http_calls w @ [refresh_token t],
                      client := (client w)\<lparr>refreshPromise := Some (length (http_calls w))\<rparr>\<rparr>)
             c GetValidCall (length (http_calls w), True)"
proof -
  have "refresh_token_at_hand w []"
    using assms(2,3) by (simp add: refresh_token_at_hand_def or_else_def)
  from refresh_begin_starts [OF assms(1) this] assms(2,3,4) show ?thesis
    by (simp add: call_getValidAccessToken_def or_else_def)
qed

text \<open>The leader's rest empties the slot, whatever the outcome and the kind of call.\<close>

lemma resume_refreshPromise:
  "refreshPromise (client (resume hc out wt w)) =
     (if w_leader wt then None else refreshPromise (client w))"
  by (cases "w_kind wt")
     (auto simp: resume_def finish_def clearTokens_def Let_def split: sum.splits option.splits)

lemma resume_http_calls: "http_calls (resume hc out wt w) = http_calls w"
  by (cases "w_kind wt")
     (auto simp: resume_def finish_def clearTokens_def Let_def split: sum.splits option.splits)

lemma fold_resume_http_calls: "http_calls (fold (resume hc out) wts w) = http_calls w"
  by (induction wts arbitrary: w) (simp_all add: resume_http_calls)

lemma fold_resume_refreshPromise:
  "refreshPromise (client (fold (resume hc out) wts w)) =
     (if \<exists>wt \<in> set wts. w_leader wt then None else refreshPromise (client w))"
  by (induction wts arbitrary: w) (auto simp: resume_refreshPromise)

lemma settle_clears_slot:
  assumes "wf_world w" and "refreshPromise (client w) = Some p"
  shows "refreshPromise (client (settle hc w p reply)) = None"
    and "http_calls (settle hc w p reply) = http_calls w"
proof -
  from assms have p: "p < length (http_calls w)"
    and l: "\<exists>wt \<in> set (waiting w). w_promise wt = p \<and> w_leader wt"
    by (simp_all add: wf_world_def)
  from l have "\<exists>wt \<in> set (filter (\<lambda>wt. w_promise wt = p) (waiting w)). w_leader wt"
    by auto
  then show "refreshPromise (client (settle hc w p reply)) = None"
    using assms(2) p by (simp add: settle_def Let_def fold_resume_refreshPromise)
  show "http_calls (settle hc w p reply) = http_calls w"
    using assms(2) p by (simp add: settle_def Let_def fold_resume_http_calls)
qed

subsection \<open>The invariant\<close>

lemma wf_new_world: "refreshPromise c = None \<Longrightarrow> wf_world (new_world c)"
  by (simp add: wf_world_def new_world_def)

lemma wf_finish: "wf_world w \<Longrightarrow> wf_world (finish w c r)"
  by (simp add: wf_world_def finish_def split: option.splits)

lemma wf_suspend: "wf_world w \<Longrightarrow> wf_world (suspend w c k pl)"
  by (auto simp: wf_world_def suspend_def split: option.splits)

lemma wf_clearTokens: "wf_world w \<Longrightarrow> wf_world (w\<lparr>client := clearTokens (client w)\<rparr>)"
  by (simp add: wf_world_def clearTokens_def split: option.splits)

lemma refresh_begin_cases:
  obtains (rejected) e where "refresh_begin w ov = (Inl e, w)"
  | (joined) p where "refreshPromise (client w) = Some p" "refresh_begin w ov = (Inr (p, False), w)"
  | (started) "refreshPromise (client w) = None"
      "refresh_begin w ov =
         (Inr (length (http_calls w), True),
          w\<lparr>http_calls := http_calls w @
               [or_else ov (case tokens (client w) of None \<Rightarrow> [] | Some t \<Rightarrow> refresh_token t)],
            client := (client w)\<lparr>refreshPromise := Some (length (http_calls w))\<rparr>\<rparr>)"
proof (cases "or_else ov (case tokens (client w) of None \<Rightarrow> [] | Some t \<Rightarrow> refresh_token t) = []")
  case True
  then show ?thesis using rejected by (simp add: refresh_begin_def Let_def)
next
  case False
  then show ?thesis using joined started
    by (cases "refreshPromise (client w)") (simp_all add: refresh_begin_def Let_def)
qed

lemma wf_started:
  assumes "wf_world w" and "refreshPromise (client w) = None"
  shows "wf_world (suspend (w\<lparr>http_calls := http_calls w @ [tk],
                              client := (client w)\<lparr>refreshPromise := Some (length (http_calls w))\<rparr>\<rparr>)
                     c k (length (http_calls w), True))"
  by (simp add: wf_world_def suspend_def)

lemma wf_call_refresh: "wf_world w \<Longrightarrow> wf_world (call_refreshAccessToken w c ov)"
  by (cases rule: refresh_begin_cases [of w ov])
     (simp_all add: call_refreshAccessToken_def wf_finish wf_suspend wf_started)

lemma wf_call_getValid: "wf_world w \<Longrightarrow> wf_world (call_getValidAccessToken w c n1 n2)"
  by (cases rule: refresh_begin_cases [of w "[]"])
     (simp_all add: call_getValidAccessToken_def wf_finish wf_suspend wf_started
        split: option.splits)

lemma wf_call_handle: "wf_world w \<Longrightarrow> wf_world (call_handleResponse hc w c r)"
  by (cases rule: refresh_begin_cases [of w "[]"])
     (simp_all add: call_handleResponse_def Let_def wf_finish wf_suspend wf_started wf_clearTokens)

lemma wf_settle:
  assumes "wf_world w"
  shows "wf_world (settle hc w p reply)"
proof (cases "refreshPromise (client w) = Some p")
  case True
  from settle_clears_slot(1) [OF assms True] show ?thesis
    by (simp add: wf_world_def)
next
  case False
  then show ?thesis using assms by (simp add: settle_def)
qed

lemma wf_setTokens: "wf_world w \<Longrightarrow> wf_world (w\<lparr>client := setTokens (client w) t\<rparr>)"
  by (simp add: wf_world_def setTokens_def split: option.splits)

text \<open>Every world that a run of events leads to from a new client satisfies the invariant.\<close>

lemma wf_run:
  assumes "wf_world w"
  shows "wf_world (oauth_run hc w evs)"
  using assms
proof (induction evs arbitrary: w)
  case Nil
  then show ?case by simp
next
  case (Cons ev evs)
  have "wf_world (oauth_step hc w ev)"
    using Cons.prems
    by (cases ev)
       (simp_all add: wf_call_refresh wf_call_getValid wf_call_handle wf_settle wf_setTokens
          wf_clearTokens)
  from Cons.IH [OF this] show ?case by simp
qed

lemma wf_run_new: "wf_world (oauth_run hc (new_world (new_oauth_client cfg)) evs)"
  by (rule wf_run) (simp add: wf_new_world new_oauth_client_def)

subsection \<open>The waiting calls\<close>

lemma resume_waiting: "waiting (resume hc out wt w) = waiting w"
  by (cases "w_kind wt")
     (auto simp: resume_def finish_def clearTokens_def Let_def split: sum.splits option.splits)

lemma fold_resume_waiting: "waiting (fold (resume hc out) wts w) = waiting w"
  by (induction wts arbitrary: w) (simp_all add: resume_waiting)

lemma waiting_ok_idle:
  assumes "waiting_ok w" and "refreshPromise (client w) = None"
  shows "waiting w = []"
proof (cases "waiting w")
  case Nil
  then show ?thesis .
next
  case (Cons wt wts)
  then have "wt \<in> set (waiting w)" by simp
  with assms show ?thesis by (auto simp: waiting_ok_def)
qed

lemma waiting_ok_new: "waiting_ok (new_world c)"
  by (simp add: waiting_ok_def new_world_def)

lemma waiting_ok_finish: "waiting_ok w \<Longrightarrow> waiting_ok (finish w c r)"
  by (simp add: waiting_ok_def finish_def)

lemma waiting_ok_clearTokens: "waiting_ok w \<Longrightarrow> waiting_ok (w\<lparr>client := clearTokens (client w)\<rparr>)"
  by (simp add: waiting_ok_def clearTokens_def)

lemma waiting_ok_setTokens: "waiting_ok w \<Longrightarrow> waiting_ok (w\<lparr>client := setTokens (client w) t\<rparr>)"
  by (simp add: waiting_ok_def setTokens_def)

lemma waiting_ok_joined:
  assumes "waiting_ok w" and "refreshPromise (client w) = Some p"
  shows "waiting_ok (suspend w c k (p, False))"
  using assms by (simp add: waiting_ok_def suspend_def)

lemma waiting_ok_started:
  assumes "waiting_ok w" and "refreshPromise (client w) = None"
  shows "waiting_ok (suspend (w\<lparr>http_calls := http_calls w @ [tk],
                              client := (client w)\<lparr>refreshPromise := Some (length (http_calls w))\<rparr>\<rparr>)
                     c k (length (http_calls w), True))"
  using waiting_ok_idle [OF assms] by (simp add: waiting_ok_def suspend_def)

lemma waiting_ok_call_refresh: "waiting_ok w \<Longrightarrow> waiting_ok (call_refreshAccessToken w c ov)"
  by (cases rule: refresh_begin_cases [of w ov])
     (simp_all add: call_refreshAccessToken_def waiting_ok_finish waiting_ok_joined
        waiting_ok_started)

lemma waiting_ok_call_getValid: "waiting_ok w \<Longrightarrow> waiting_ok (call_getValidAccessToken w c n1 n2)"
  by (cases rule: refresh_begin_cases [of w "[]"])
     (simp_all add: call_getValidAccessToken_def waiting_ok_finish waiting_ok_joined
        waiting_ok_started split: option.splits)

lemma waiting_ok_call_handle: "waiting_ok w \<Longrightarrow> waiting_ok (call_handleResponse hc w c r)"
  by (cases rule: refresh_begin_cases [of w "[]"])
     (simp_all add: call_handleResponse_def Let_def waiting_ok_finish waiting_ok_joined
        waiting_ok_started waiting_ok_clearTokens)

lemma waiting_ok_settle:
  assumes "waiting_ok w"
  shows "waiting_ok (settle hc w p reply)"
proof (cases "refreshPromise (client w) = Some p \<and> p < length (http_calls w)")
  case False
  then have "settle hc w p reply = w"
    unfolding settle_def by (rule if_not_P)
  with assms show ?thesis by simp
next
  case True
  with assms have "filter (\<lambda>wt. w_promise wt \<noteq> p) (waiting w) = []"
    by (auto simp: waiting_ok_def filter_empty_conv)
  with True have "waiting (settle hc w p reply) = []"
    by (simp add: settle_def Let_def fold_resume_waiting)
  then show ?thesis by (simp add: waiting_ok_def)
qed

lemma waiting_ok_run:
  assumes "waiting_ok w"
  shows "waiting_ok (oauth_run hc w evs)"
  using assms
proof (induction evs arbitrary: w)
  case Nil
  then show ?case by simp
next
  case (Cons ev evs)
  have "waiting_ok (oauth_step hc w ev)"
    using Cons.prems
    by (cases ev)
       (simp_all add: waiting_ok_call_refresh waiting_ok_call_getValid waiting_ok_call_handle
          waiting_ok_settle waiting_ok_setTokens waiting_ok_clearTokens)
  from Cons.IH [OF this] show ?case by simp
qed

subsection \<open>What the waiting calls end with\<close>

text \<open>
  A call that joined the refresh in flight ends with the outcome of its promise, and
  changes nothing else: the world after the settlement is the one without that call,
  with its result added.
\<close>

lemma settle_joined:
  assumes "refreshPromise (client w) = Some p" and "p < length (http_calls w)"
  shows "settle hc (suspend w c k (p, False)) p reply =
           resume hc (performTokenRefresh (oauth_cfg (client w)) (http_calls w ! p) reply)
             \<lparr>w_caller = c, w_kind = k, w_leader = False, w_promise = p\<rparr>
             (settle hc w p reply)"
proof -
  let ?wt = "\<lparr>w_caller = c, w_kind = k, w_leader = False, w_promise = p\<rparr>"
  have base: "(suspend w c k (p, False))
                \<lparr>waiting := filter (\<lambda>wt. w_promise wt \<noteq> p) (waiting (suspend w c k (p, False)))\<rparr>
              = w\<lparr>waiting := filter (\<lambda>wt. w_promise wt \<noteq> p) (waiting w)\<rparr>"
    by (simp add: suspend_def)
  have flt: "filter (\<lambda>wt. w_promise wt = p) (waiting (suspend w c k (p, False)))
              = filter (\<lambda>wt. w_promise wt = p) (waiting w) @ [?wt]"
    by (simp add: suspend_def)
  have cl: "client (suspend w c k (p, False)) = client w"
    and hc: "http_calls (suspend w c k (p, False)) = http_calls w"
    by (simp_all add: suspend_def)
  show ?thesis
    using assms by (simp add: settle_def [of hc "suspend w c k (p, False)"] settle_def [of hc w]
        cl hc base flt Let_def)
qed

lemma resume_joined_refresh:
  "resume hc out \<lparr>w_caller = c, w_kind = RefreshCall, w_leader = False, w_promise = p\<rparr> w
     = finish w c (case out of Inl e \<Rightarrow> Inl e | Inr t \<Rightarrow> Inr (TokensValue t))"
  by (simp add: resume_def)

lemma resume_joined_getValid:
  "resume hc out \<lparr>w_caller = c, w_kind = GetValidCall, w_leader = False, w_promise = p\<rparr> w
     = finish w c (case out of Inl e \<Rightarrow> Inl e | Inr t \<Rightarrow> Inr (AccessTokenValue (access_token t)))"
  by (simp add: resume_def)

text \<open>
  In a world the steps lead to, the settlement of the refresh in flight ends every
  waiting call: a call of \<open>refreshAccessToken\<close> with the outcome of the promise, a call
  of \<open>getValidAccessToken\<close> with the access token of the new token set or the error of
  the promise, a call of \<open>handleResponse\<close> with the error of its response.
\<close>

lemma resume_results:
  "results (resume hc out wt w) =
     results w @
       [(w_caller wt,
         case w_kind wt of
           RefreshCall \<Rightarrow> (case out of Inl e \<Rightarrow> Inl e | Inr t \<Rightarrow> Inr (TokensValue t))
         | GetValidCall \<Rightarrow>
             (case out of Inl e \<Rightarrow> Inl e | Inr t \<Rightarrow> Inr (AccessTokenValue (access_token t)))
         | HandleCall error \<Rightarrow> Inl error)]"
  by (cases "w_kind wt")
     (auto simp: resume_def finish_def clearTokens_def Let_def split: sum.splits option.splits)

lemma fold_resume_results:
  "results (fold (resume hc out) wts w) =
     results w @
       map (\<lambda>wt. (w_caller wt,
         case w_kind wt of
           RefreshCall \<Rightarrow> (case out of Inl e \<Rightarrow> Inl e | Inr t \<Rightarrow> Inr (TokensValue t))
         | GetValidCall \<Rightarrow>
             (case out of Inl e \<Rightarrow> Inl e | Inr t \<Rightarrow> Inr (AccessTokenValue (access_token t)))
         | HandleCall error \<Rightarrow> Inl error)) wts"
  by (induction wts arbitrary: w) (simp_all add: resume_results)

lemma settle_results:
  assumes "wf_world w" and "waiting_ok w" and "refreshPromise (client w) = Some p"
  shows "results (settle hc w p reply) =
     results w @
       map (\<lambda>wt. (w_caller wt,
         case w_kind wt of
           RefreshCall \<Rightarrow>
             (case performTokenRefresh (oauth_cfg (client w)) (http_calls w ! p) reply of
                Inl e \<Rightarrow> Inl e | Inr t \<Rightarrow> Inr (TokensValue t))
         | GetValidCall \<Rightarrow>
             (case performTokenRefresh (oauth_cfg (client w)) (http_calls w ! p) reply of
                Inl e \<Rightarrow> Inl e | Inr t \<Rightarrow> Inr (AccessTokenValue (access_token t)))
         | HandleCall error \<Rightarrow> Inl error)) (waiting w)"
    and "waiting (settle hc w p reply) = []"
proof -
  from assms(1,3) have p: "p < length (http_calls w)"
    by (simp add: wf_world_def)
  from assms(2,3) have all: "filter (\<lambda>wt. w_promise wt = p) (waiting w) = waiting w"
    and none: "filter (\<lambda>wt. w_promise wt \<noteq> p) (waiting w) = []"
    by (auto simp: waiting_ok_def filter_empty_conv filter_id_conv)
  show "results (settle hc w p reply) =
     results w @
       map (\<lambda>wt. (w_caller wt,
         case w_kind wt of
           RefreshCall \<Rightarrow>
             (case performTokenRefresh (oauth_cfg (client w)) (http_calls w ! p) reply of
                Inl e \<Rightarrow> Inl e | Inr t \<Rightarrow> Inr (TokensValue t))
         | GetValidCall \<Rightarrow>
             (case performTokenRefresh (oauth_cfg (client w)) (http_calls w ! p) reply of
                Inl e \<Rightarrow> Inl e | Inr t \<Rightarrow> Inr (AccessTokenValue (access_token t)))
         | HandleCall error \<Rightarrow> Inl error)) (waiting w)"
    using assms(3) p by (simp add: settle_def Let_def all fold_resume_results)
  show "waiting (settle hc w p reply) = []"
    using assms(3) p by (simp add: settle_def Let_def none fold_resume_waiting)
qed


subsection \<open>Single flight\<close>

lemma call_handle_joins:
  assumes "refreshPromise (client w) = Some p" and "refresh_token_at_hand w []"
    and "oauthClient hc" and "resp_status r = 401"
  shows "call_handleResponse hc w c r =
           suspend w c (HandleCall (fromHttpStatus 401 (resp_body r))) (p, False)"
  using refresh_begin_joins [OF assms(1,2)] assms(3,4)
  by (simp add: call_handleResponse_def resp_ok_def fromHttpStatus_def Let_def)

lemma call_refresh_rejected:
  assumes "\<not> refresh_token_at_hand w ov"
  shows "call_refreshAccessToken w c ov
           = finish w c (Inl (WhoopAuthError ''No refresh token available''))"
  using assms
  by (simp add: call_refreshAccessToken_def refresh_begin_def refresh_token_at_hand_def Let_def)

lemma call_getValid_rejected:
  assumes "tokens (client w) = Some t" and "refresh_token t = []"
    and "isTokenExpired (client w) (Some t) n1 n2"
  shows "call_getValidAccessToken w c n1 n2
           = finish w c (Inl (WhoopAuthError ''No refresh token available''))"
  using assms
  by (simp add: call_getValidAccessToken_def refresh_begin_def or_else_def Let_def)

text \<open>
  Two calls of \<open>getValidAccessToken\<close> on a token set that is reported as expired and
  holds a refresh token, with no refresh in flight and no call waiting: the world after
  both calls, and what the settlement of the one request makes of it.
\<close>

lemma two_getValid_calls:
  assumes "refreshPromise (client w) = None" and "tokens (client w) = Some t"
    and "refresh_token t \<noteq> []"
    and "isTokenExpired (client w) (Some t) n1 n2" and "isTokenExpired (client w) (Some t) n3 n4"
  shows "call_getValidAccessToken (call_getValidAccessToken w c n1 n2) c' n3 n4 =
           w\<lparr>http_calls := http_calls w @ [refresh_token t],
             client := (client w)\<lparr>refreshPromise := Some (length (http_calls w))\<rparr>,
             waiting := waiting w @
               [\<lparr>w_caller = c, w_kind = GetValidCall, w_leader = True,
                  w_promise = length (http_calls w)\<rparr>,
                \<lparr>w_caller = c', w_kind = GetValidCall, w_leader = False,
                  w_promise = length (http_calls w)\<rparr>]\<rparr>"
proof -
  let ?w1 = "suspend (w\<lparr>http_calls := http_calls w @ [refresh_token t],
                        client := (client w)\<lparr>refreshPromise := Some (length (http_calls w))\<rparr>\<rparr>)
               c GetValidCall (length (http_calls w), True)"
  have eq1: "call_getValidAccessToken w c n1 n2 = ?w1"
    by (rule call_getValid_starts [OF assms(1,2,3,4)])
  have "isTokenExpired (client ?w1) (Some t) n3 n4 = isTokenExpired (client w) (Some t) n3 n4"
    by (simp add: isTokenExpired_def)
  with assms(5) have exp: "isTokenExpired (client ?w1) (Some t) n3 n4"
    by blast
  have eq2: "call_getValidAccessToken ?w1 c' n3 n4
               = suspend ?w1 c' GetValidCall (length (http_calls w), False)"
    by (rule call_getValid_joins [where t = t]) (use assms exp in \<open>simp_all add: suspend_def\<close>)
  show ?thesis
    unfolding eq1 eq2 by (simp add: suspend_def)
qed

lemma two_getValid_calls_settle:
  assumes "waiting_ok w"
    and "refreshPromise (client w) = None" and "tokens (client w) = Some t"
    and "refresh_token t \<noteq> []"
    and "isTokenExpired (client w) (Some t) n1 n2" and "isTokenExpired (client w) (Some t) n3 n4"
  shows "settle hc (call_getValidAccessToken (call_getValidAccessToken w c n1 n2) c' n3 n4)
           (length (http_calls w)) reply =
         w\<lparr>http_calls := http_calls w @ [refresh_token t],
           client := (client w)
             \<lparr>tokens := (case performTokenRefresh (oauth_cfg (client w)) (refresh_token t) reply of
                           Inr t' \<Rightarrow> Some t' | Inl e \<Rightarrow> Some t),
              refreshPromise := None\<rparr>,
           results := results w @
             [(c, case performTokenRefresh (oauth_cfg (client w)) (refresh_token t) reply of
                    Inl e \<Rightarrow> Inl e | Inr t' \<Rightarrow> Inr (AccessTokenValue (access_token t'))),
              (c', case performTokenRefresh (oauth_cfg (client w)) (refresh_token t) reply of
                    Inl e \<Rightarrow> Inl e | Inr t' \<Rightarrow> Inr (AccessTokenValue (access_token t')))]\<rparr>"
proof -
  have idle: "waiting w = []"
    by (rule waiting_ok_idle [OF assms(1,2)])
  show ?thesis
    unfolding two_getValid_calls [OF assms(2-6)]
    using assms(3)
    by (cases "performTokenRefresh (oauth_cfg (client w)) (refresh_token t) reply")
       (simp_all add: settle_def idle resume_def finish_def Let_def)
qed


text \<open>
  C6, as the code has it, for every world \<open>w\<close> that the steps lead to from a new
  client. While a refresh is in flight (promise \<open>p\<close>), a further call of
  \<open>refreshAccessToken\<close> that has a refresh token at hand (its argument or the stored
  one), and a call of \<open>getValidAccessToken\<close> on a token set that holds a refresh token
  and that \<open>isTokenExpired\<close> reports as expired, wait for the same promise \<open>p\<close>, send
  no request, and end with the outcome of that promise when it settles, changing nothing
  else; the call that \<open>handleResponse\<close> makes for a response with status 401 waits for
  \<open>p\<close> and sends no request either. Two calls of \<open>getValidAccessToken\<close> on such a token set with no refresh in
  flight send exactly one request, and when it is answered both end with the same
  outcome: the new access token, or the error of the refresh. When the refresh settles,
  with either outcome, the slot is empty, and the next call of \<open>refreshAccessToken\<close>
  with a refresh token at hand sends a new request. A call that has no refresh token at
  hand is rejected with \<^verbatim>\<open>No refresh token available\<close>, whether a refresh is in flight or
  not; it sends no request and waits for nothing.
\<close>

theorem refresh_single_flight:
  assumes "w = oauth_run hc0 (new_world (new_oauth_client cfg)) evs"
  shows
    "(refreshPromise (client w) = Some p \<and> refresh_token_at_hand w ov \<longrightarrow>
        http_calls (call_refreshAccessToken w c ov) = http_calls w
        \<and> refreshPromise (client (call_refreshAccessToken w c ov)) = Some p
        \<and> awaits (call_refreshAccessToken w c ov) c p
        \<and> settle hc (call_refreshAccessToken w c ov) p reply
            = finish (settle hc w p reply) c
                (case performTokenRefresh (oauth_cfg (client w)) (http_calls w ! p) reply of
                   Inl e \<Rightarrow> Inl e | Inr t' \<Rightarrow> Inr (TokensValue t')))
   \<and> (refreshPromise (client w) = Some p \<and> tokens (client w) = Some t \<and> refresh_token t \<noteq> []
        \<and> isTokenExpired (client w) (Some t) n1 n2 \<longrightarrow>
        http_calls (call_getValidAccessToken w c n1 n2) = http_calls w
        \<and> refreshPromise (client (call_getValidAccessToken w c n1 n2)) = Some p
        \<and> awaits (call_getValidAccessToken w c n1 n2) c p
        \<and> settle hc (call_getValidAccessToken w c n1 n2) p reply
            = finish (settle hc w p reply) c
                (case performTokenRefresh (oauth_cfg (client w)) (http_calls w ! p) reply of
                   Inl e \<Rightarrow> Inl e | Inr t' \<Rightarrow> Inr (AccessTokenValue (access_token t'))))
   \<and> (refreshPromise (client w) = Some p \<and> refresh_token_at_hand w [] \<and> oauthClient hc
        \<and> resp_status r = 401 \<longrightarrow>
        http_calls (call_handleResponse hc w c r) = http_calls w
        \<and> refreshPromise (client (call_handleResponse hc w c r)) = Some p
        \<and> awaits (call_handleResponse hc w c r) c p)
   \<and> (refreshPromise (client w) = None \<and> tokens (client w) = Some t \<and> refresh_token t \<noteq> []
        \<and> isTokenExpired (client w) (Some t) n1 n2 \<and> isTokenExpired (client w) (Some t) n3 n4 \<longrightarrow>
        http_calls (call_getValidAccessToken (call_getValidAccessToken w c n1 n2) c' n3 n4)
          = http_calls w @ [refresh_token t]
        \<and> awaits (call_getValidAccessToken (call_getValidAccessToken w c n1 n2) c' n3 n4)
            c (length (http_calls w))
        \<and> awaits (call_getValidAccessToken (call_getValidAccessToken w c n1 n2) c' n3 n4)
            c' (length (http_calls w))
        \<and> settle hc (call_getValidAccessToken (call_getValidAccessToken w c n1 n2) c' n3 n4)
            (length (http_calls w)) reply
            = w\<lparr>http_calls := http_calls w @ [refresh_token t],
                client := (client w)
                  \<lparr>tokens :=
                     (case performTokenRefresh (oauth_cfg (client w)) (refresh_token t) reply of
                        Inr t' \<Rightarrow> Some t' | Inl e \<Rightarrow> Some t),
                   refreshPromise := None\<rparr>,
                results := results w @
                  [(c, case performTokenRefresh (oauth_cfg (client w)) (refresh_token t) reply of
                         Inl e \<Rightarrow> Inl e | Inr t' \<Rightarrow> Inr (AccessTokenValue (access_token t'))),
                   (c', case performTokenRefresh (oauth_cfg (client w)) (refresh_token t) reply of
                         Inl e \<Rightarrow> Inl e
                       | Inr t' \<Rightarrow> Inr (AccessTokenValue (access_token t')))]\<rparr>)
   \<and> (refreshPromise (client w) = Some p \<longrightarrow>
        refreshPromise (client (settle hc w p reply)) = None
        \<and> (refresh_token_at_hand (settle hc w p reply) ov \<longrightarrow>
             http_calls (call_refreshAccessToken (settle hc w p reply) c ov)
               = http_calls w @
                   [or_else ov (case tokens (client (settle hc w p reply)) of
                                  None \<Rightarrow> [] | Some t \<Rightarrow> refresh_token t)]
             \<and> refreshPromise (client (call_refreshAccessToken (settle hc w p reply) c ov))
                 = Some (length (http_calls w))))
   \<and> (\<not> refresh_token_at_hand w ov \<longrightarrow>
        call_refreshAccessToken w c ov
          = finish w c (Inl (WhoopAuthError ''No refresh token available'')))
   \<and> (tokens (client w) = Some t \<and> refresh_token t = []
        \<and> isTokenExpired (client w) (Some t) n1 n2 \<longrightarrow>
        call_getValidAccessToken w c n1 n2
          = finish w c (Inl (WhoopAuthError ''No refresh token available'')))"
proof (intro conjI impI)
  have wf: "wf_world w"
    unfolding assms by (rule wf_run_new)
  have wo: "waiting_ok w"
    unfolding assms by (rule waiting_ok_run [OF waiting_ok_new])
  {
    assume a: "refreshPromise (client w) = Some p \<and> refresh_token_at_hand w ov"
    then have eq: "call_refreshAccessToken w c ov = suspend w c RefreshCall (p, False)"
      by (simp add: call_refresh_joins)
    from a wf have p: "p < length (http_calls w)"
      by (simp add: wf_world_def)
    show "http_calls (call_refreshAccessToken w c ov) = http_calls w"
      unfolding eq by (simp add: suspend_def)
    show "refreshPromise (client (call_refreshAccessToken w c ov)) = Some p"
      unfolding eq using a by (simp add: suspend_def)
    show "awaits (call_refreshAccessToken w c ov) c p"
      unfolding eq by (rule awaits_suspend)
    from a have fl: "refreshPromise (client w) = Some p" by simp
    show "settle hc (call_refreshAccessToken w c ov) p reply
            = finish (settle hc w p reply) c
                (case performTokenRefresh (oauth_cfg (client w)) (http_calls w ! p) reply of
                   Inl e \<Rightarrow> Inl e | Inr t' \<Rightarrow> Inr (TokensValue t'))"
      unfolding eq settle_joined [OF fl p] by (rule resume_joined_refresh)
  }
  {
    assume a: "refreshPromise (client w) = Some p \<and> tokens (client w) = Some t
               \<and> refresh_token t \<noteq> [] \<and> isTokenExpired (client w) (Some t) n1 n2"
    then have eq: "call_getValidAccessToken w c n1 n2 = suspend w c GetValidCall (p, False)"
      by (simp add: call_getValid_joins)
    from a wf have p: "p < length (http_calls w)"
      by (simp add: wf_world_def)
    show "http_calls (call_getValidAccessToken w c n1 n2) = http_calls w"
      unfolding eq by (simp add: suspend_def)
    show "refreshPromise (client (call_getValidAccessToken w c n1 n2)) = Some p"
      unfolding eq using a by (simp add: suspend_def)
    show "awaits (call_getValidAccessToken w c n1 n2) c p"
      unfolding eq by (rule awaits_suspend)
    from a have fl: "refreshPromise (client w) = Some p" by simp
    show "settle hc (call_getValidAccessToken w c n1 n2) p reply
            = finish (settle hc w p reply) c
                (case performTokenRefresh (oauth_cfg (client w)) (http_calls w ! p) reply of
                   Inl e \<Rightarrow> Inl e | Inr t' \<Rightarrow> Inr (AccessTokenValue (access_token t')))"
      unfolding eq settle_joined [OF fl p] by (rule resume_joined_getValid)
  }
  {
    assume a: "refreshPromise (client w) = Some p \<and> refresh_token_at_hand w [] \<and> oauthClient hc
               \<and> resp_status r = 401"
    then have eq: "call_handleResponse hc w c r =
                     suspend w c (HandleCall (fromHttpStatus 401 (resp_body r))) (p, False)"
      by (simp add: call_handle_joins)
    show "http_calls (call_handleResponse hc w c r) = http_calls w"
      unfolding eq by (simp add: suspend_def)
    show "refreshPromise (client (call_handleResponse hc w c r)) = Some p"
      unfolding eq using a by (simp add: suspend_def)
    show "awaits (call_handleResponse hc w c r) c p"
      unfolding eq by (rule awaits_suspend)
  }
  {
    assume a: "refreshPromise (client w) = None \<and> tokens (client w) = Some t
               \<and> refresh_token t \<noteq> [] \<and> isTokenExpired (client w) (Some t) n1 n2
               \<and> isTokenExpired (client w) (Some t) n3 n4"
    then have h: "refreshPromise (client w) = None" "tokens (client w) = Some t"
      "refresh_token t \<noteq> []" "isTokenExpired (client w) (Some t) n1 n2"
      "isTokenExpired (client w) (Some t) n3 n4"
      by simp_all
    note two = two_getValid_calls [OF h, of c c']
    show "http_calls (call_getValidAccessToken (call_getValidAccessToken w c n1 n2) c' n3 n4)
            = http_calls w @ [refresh_token t]"
      unfolding two by simp
    show "awaits (call_getValidAccessToken (call_getValidAccessToken w c n1 n2) c' n3 n4)
            c (length (http_calls w))"
      unfolding two by (simp add: awaits_def)
    show "awaits (call_getValidAccessToken (call_getValidAccessToken w c n1 n2) c' n3 n4)
            c' (length (http_calls w))"
      unfolding two by (simp add: awaits_def)
    show "settle hc (call_getValidAccessToken (call_getValidAccessToken w c n1 n2) c' n3 n4)
            (length (http_calls w)) reply
            = w\<lparr>http_calls := http_calls w @ [refresh_token t],
                client := (client w)
                  \<lparr>tokens :=
                     (case performTokenRefresh (oauth_cfg (client w)) (refresh_token t) reply of
                        Inr t' \<Rightarrow> Some t' | Inl e \<Rightarrow> Some t),
                   refreshPromise := None\<rparr>,
                results := results w @
                  [(c, case performTokenRefresh (oauth_cfg (client w)) (refresh_token t) reply of
                         Inl e \<Rightarrow> Inl e | Inr t' \<Rightarrow> Inr (AccessTokenValue (access_token t'))),
                   (c', case performTokenRefresh (oauth_cfg (client w)) (refresh_token t) reply of
                         Inl e \<Rightarrow> Inl e
                       | Inr t' \<Rightarrow> Inr (AccessTokenValue (access_token t')))]\<rparr>"
      by (rule two_getValid_calls_settle [OF wo h])
  }
  {
    assume a: "refreshPromise (client w) = Some p"
    show "refreshPromise (client (settle hc w p reply)) = None"
      by (rule settle_clears_slot(1) [OF wf a])
  }
  {
    assume a: "refreshPromise (client w) = Some p"
      and b: "refresh_token_at_hand (settle hc w p reply) ov"
    have eq: "call_refreshAccessToken (settle hc w p reply) c ov =
             suspend ((settle hc w p reply)\<lparr>http_calls := http_calls (settle hc w p reply) @
                   [or_else ov (case tokens (client (settle hc w p reply)) of None \<Rightarrow> []
                                | Some t \<Rightarrow> refresh_token t)],
                client := (client (settle hc w p reply))
                   \<lparr>refreshPromise := Some (length (http_calls (settle hc w p reply)))\<rparr>\<rparr>)
               c RefreshCall (length (http_calls (settle hc w p reply)), True)"
      by (rule call_refresh_starts [OF settle_clears_slot(1) [OF wf a] b])
    show "http_calls (call_refreshAccessToken (settle hc w p reply) c ov)
               = http_calls w @
                   [or_else ov (case tokens (client (settle hc w p reply)) of
                                  None \<Rightarrow> [] | Some t \<Rightarrow> refresh_token t)]"
      unfolding eq by (simp add: suspend_def settle_clears_slot(2) [OF wf a])
    show "refreshPromise (client (call_refreshAccessToken (settle hc w p reply) c ov))
                 = Some (length (http_calls w))"
      unfolding eq by (simp add: suspend_def settle_clears_slot(2) [OF wf a])
  }
  {
    assume "\<not> refresh_token_at_hand w ov"
    then show "call_refreshAccessToken w c ov
          = finish w c (Inl (WhoopAuthError ''No refresh token available''))"
      by (rule call_refresh_rejected)
  }
  {
    assume "tokens (client w) = Some t \<and> refresh_token t = []
        \<and> isTokenExpired (client w) (Some t) n1 n2"
    then show "call_getValidAccessToken w c n1 n2
          = finish w c (Inl (WhoopAuthError ''No refresh token available''))"
      by (simp add: call_getValid_rejected)
  }
qed


text \<open>
  The theorem at a client whose stored token set has \<open>expires_in = 60\<close>, which
  \<open>isTokenExpired\<close> reports as expired. Calls 1 and 2 of \<open>getValidAccessToken\<close> send
  one request; both receive the new access token when it is answered, and both the same
  network error when it fails. Call 3 of \<open>refreshAccessToken\<close> joins the refresh of
  call 1 and receives the new token set; call 5 of \<open>handleResponse\<close>, for a response
  with status 401, joins it too. After the settlement call 4 sends a second
  request. Without a refresh token, call 2 is rejected while the refresh of call 1 is in
  flight, and so is a call of \<open>getValidAccessToken\<close> on a token set without one.
\<close>

theorem refresh_single_flight_witness:
  "http_calls (call_getValidAccessToken (call_getValidAccessToken
       (oauth_run \<lparr>oauthClient = True, onTokenRefresh = None\<rparr>
          (new_world (new_oauth_client example_config)) [SetTokens (example_tokens 60)])
       1 0 0) 2 5 5) = [''old-refresh'']
   \<and> results (settle \<lparr>oauthClient = True, onTokenRefresh = None\<rparr>
        (call_getValidAccessToken (call_getValidAccessToken
          (oauth_run \<lparr>oauthClient = True, onTokenRefresh = None\<rparr>
             (new_world (new_oauth_client example_config)) [SetTokens (example_tokens 60)])
          1 0 0) 2 5 5) 0 example_reply)
       = [(1, Inr (AccessTokenValue ''new-access'')), (2, Inr (AccessTokenValue ''new-access''))]
   \<and> results (settle \<lparr>oauthClient = True, onTokenRefresh = None\<rparr>
        (call_getValidAccessToken (call_getValidAccessToken
          (oauth_run \<lparr>oauthClient = True, onTokenRefresh = None\<rparr>
             (new_world (new_oauth_client example_config)) [SetTokens (example_tokens 60)])
          1 0 0) 2 5 5) 0 (FetchFailed (JsError ''offline'')))
       = [(1, Inl (WhoopNetworkError ''Network error: offline'' (JsError ''offline''))),
          (2, Inl (WhoopNetworkError ''Network error: offline'' (JsError ''offline'')))]
   \<and> http_calls (call_refreshAccessToken
        (oauth_run \<lparr>oauthClient = True, onTokenRefresh = None\<rparr>
           (new_world (new_oauth_client example_config))
           [SetTokens (example_tokens 60), GetValidAccessToken 1 0 0]) 3 []) = [''old-refresh'']
   \<and> http_calls (call_handleResponse \<lparr>oauthClient = True, onTokenRefresh = None\<rparr>
        (oauth_run \<lparr>oauthClient = True, onTokenRefresh = None\<rparr>
           (new_world (new_oauth_client example_config))
           [SetTokens (example_tokens 60), GetValidAccessToken 1 0 0])
        5 \<lparr>resp_status = 401, resp_body = NullBody\<rparr>) = [''old-refresh'']
   \<and> results (settle \<lparr>oauthClient = True, onTokenRefresh = None\<rparr>
        (call_refreshAccessToken
          (oauth_run \<lparr>oauthClient = True, onTokenRefresh = None\<rparr>
             (new_world (new_oauth_client example_config))
             [SetTokens (example_tokens 60), GetValidAccessToken 1 0 0]) 3 []) 0 example_reply)
       = [(1, Inr (AccessTokenValue ''new-access'')),
          (3, Inr (TokensValue
                \<lparr>access_token = ''new-access'', refresh_token = ''old-refresh'',
                 expires_in = 3600, token_type = ''Bearer'',
                 scope = ''read:profile offline''\<rparr>))]
   \<and> refreshPromise (client (settle \<lparr>oauthClient = True, onTokenRefresh = None\<rparr>
        (oauth_run \<lparr>oauthClient = True, onTokenRefresh = None\<rparr>
           (new_world (new_oauth_client example_config))
           [SetTokens (example_tokens 60), GetValidAccessToken 1 0 0]) 0 example_reply)) = None
   \<and> http_calls (call_refreshAccessToken
        (settle \<lparr>oauthClient = True, onTokenRefresh = None\<rparr>
          (oauth_run \<lparr>oauthClient = True, onTokenRefresh = None\<rparr>
             (new_world (new_oauth_client example_config))
             [SetTokens (example_tokens 60), GetValidAccessToken 1 0 0]) 0 example_reply) 4 [])
       = [''old-refresh'', ''old-refresh'']
   \<and> results (call_refreshAccessToken
        (oauth_run \<lparr>oauthClient = True, onTokenRefresh = None\<rparr>
           (new_world (new_oauth_client example_config)) [RefreshAccessToken 1 ''rt'']) 2 [])
       = [(2, Inl (WhoopAuthError ''No refresh token available''))]
   \<and> results (call_getValidAccessToken
        (oauth_run \<lparr>oauthClient = True, onTokenRefresh = None\<rparr>
           (new_world (new_oauth_client example_config))
           [SetTokens ((example_tokens 60)\<lparr>refresh_token := []\<rparr>)]) 1 0 0)
       = [(1, Inl (WhoopAuthError ''No refresh token available''))]"
proof -
  let ?hc = "\<lparr>oauthClient = True, onTokenRefresh = None\<rparr>"
  let ?W = "new_world (new_oauth_client example_config)"
  let ?w0 = "oauth_run ?hc ?W [SetTokens (example_tokens 60)]"
  let ?w1 = "oauth_run ?hc ?W [SetTokens (example_tokens 60), GetValidAccessToken 1 0 0]"
  let ?wr = "oauth_run ?hc ?W [RefreshAccessToken 1 ''rt'']"
  let ?wn = "oauth_run ?hc ?W [SetTokens ((example_tokens 60)\<lparr>refresh_token := []\<rparr>)]"
  let ?new = "\<lparr>access_token = ''new-access'', refresh_token = ''old-refresh'',
                expires_in = 3600, token_type = ''Bearer'', scope = ''read:profile offline''\<rparr>"
  have w0: "?w0 = \<lparr>client = \<lparr>oauth_cfg = example_config, tokens = Some (example_tokens 60),
                               refreshPromise = None\<rparr>,
                    http_calls = [], waiting = [], results = []\<rparr>"
    by (simp add: new_world_def setTokens_def new_oauth_client_def)
  have ex: "isTokenExpired (client ?w0) (Some (example_tokens 60)) 0 0"
    "isTokenExpired (client ?w0) (Some (example_tokens 60)) 5 5"
    by (simp_all add: isTokenExpired_def example_tokens_def)
  have rt: "refresh_token (example_tokens 60) = ''old-refresh''"
    by (simp add: example_tokens_def)
  have ok: "performTokenRefresh example_config ''old-refresh'' example_reply = Inr ?new"
    by (simp add: performTokenRefresh_def example_reply_def example_config_def or_else_def)
  have bad: "performTokenRefresh example_config ''old-refresh'' (FetchFailed (JsError ''offline''))
               = Inl (WhoopNetworkError ''Network error: offline'' (JsError ''offline''))"
    by (simp add: performTokenRefresh_def fromNetworkError_def)
  have w1: "?w1 = \<lparr>client = \<lparr>oauth_cfg = example_config, tokens = Some (example_tokens 60),
                               refreshPromise = Some 0\<rparr>,
                    http_calls = [''old-refresh''],
                    waiting = [\<lparr>w_caller = 1, w_kind = GetValidCall, w_leader = True,
                                w_promise = 0\<rparr>],
                    results = []\<rparr>"
    using ex(1) unfolding w0
    by (simp add: call_getValidAccessToken_def new_world_def setTokens_def
        new_oauth_client_def refresh_begin_def or_else_def suspend_def Let_def example_tokens_def)
  have s1: "settle ?hc ?w1 0 example_reply =
              \<lparr>client = \<lparr>oauth_cfg = example_config, tokens = Some ?new, refreshPromise = None\<rparr>,
               http_calls = [''old-refresh''], waiting = [],
               results = [(1, Inr (AccessTokenValue ''new-access''))]\<rparr>"
    unfolding w1 by (simp add: settle_def ok resume_def finish_def Let_def)
  have wr: "?wr = \<lparr>client = \<lparr>oauth_cfg = example_config, tokens = None,
                               refreshPromise = Some 0\<rparr>,
                    http_calls = [''rt''],
                    waiting = [\<lparr>w_caller = 1, w_kind = RefreshCall, w_leader = True,
                                w_promise = 0\<rparr>],
                    results = []\<rparr>"
    by (simp add: call_refreshAccessToken_def new_world_def new_oauth_client_def
        refresh_begin_def or_else_def suspend_def Let_def)
  have wn: "?wn = \<lparr>client = \<lparr>oauth_cfg = example_config,
                               tokens = Some ((example_tokens 60)\<lparr>refresh_token := []\<rparr>),
                               refreshPromise = None\<rparr>,
                    http_calls = [], waiting = [], results = []\<rparr>"
    by (simp add: new_world_def setTokens_def new_oauth_client_def)
  have exn: "isTokenExpired (client ?wn) (Some ((example_tokens 60)\<lparr>refresh_token := []\<rparr>)) 0 0"
    by (simp add: isTokenExpired_def example_tokens_def)
  note T0 = refresh_single_flight [where ?hc0.0 = ?hc and hc = ?hc and cfg = example_config
      and evs = "[SetTokens (example_tokens 60)]" and t = "example_tokens 60"
      and c = 1 and c' = 2 and ?n1.0 = 0 and ?n2.0 = 0 and ?n3.0 = 5 and ?n4.0 = 5, OF refl]
  have a: "http_calls (call_getValidAccessToken (call_getValidAccessToken ?w0 1 0 0) 2 5 5)
             = [''old-refresh'']"
    using T0 [where reply = example_reply] ex rt unfolding w0 by simp
  have b: "results (settle ?hc (call_getValidAccessToken (call_getValidAccessToken ?w0 1 0 0) 2 5 5)
             0 example_reply)
           = [(1, Inr (AccessTokenValue ''new-access'')), (2, Inr (AccessTokenValue ''new-access''))]"
    using T0 [where reply = example_reply] ex rt ok unfolding w0 by simp
  have c: "results (settle ?hc (call_getValidAccessToken (call_getValidAccessToken ?w0 1 0 0) 2 5 5)
             0 (FetchFailed (JsError ''offline'')))
           = [(1, Inl (WhoopNetworkError ''Network error: offline'' (JsError ''offline''))),
              (2, Inl (WhoopNetworkError ''Network error: offline'' (JsError ''offline'')))]"
    using T0 [where reply = "FetchFailed (JsError ''offline'')"] ex rt bad unfolding w0 by simp
  note T1 = refresh_single_flight [where ?hc0.0 = ?hc and hc = ?hc and cfg = example_config
      and evs = "[SetTokens (example_tokens 60), GetValidAccessToken 1 0 0]"
      and p = 0 and ov = "[]" and reply = example_reply, OF refl]
  have hand: "refresh_token_at_hand ?w1 []"
    unfolding w1 by (simp add: refresh_token_at_hand_def or_else_def example_tokens_def)
  have hand': "refresh_token_at_hand (settle ?hc ?w1 0 example_reply) []"
    unfolding s1 by (simp add: refresh_token_at_hand_def or_else_def)
  have d: "http_calls (call_refreshAccessToken ?w1 3 []) = [''old-refresh'']"
    using T1 [where c = 3] hand unfolding w1 by simp
  have k: "http_calls (call_handleResponse ?hc ?w1 5 \<lparr>resp_status = 401, resp_body = NullBody\<rparr>)
           = [''old-refresh'']"
    using T1 [where c = 5 and r = "\<lparr>resp_status = 401, resp_body = NullBody\<rparr>"] hand
    unfolding w1 by simp
  have e: "results (settle ?hc (call_refreshAccessToken ?w1 3 []) 0 example_reply)
           = [(1, Inr (AccessTokenValue ''new-access'')), (3, Inr (TokensValue ?new))]"
    using T1 [where c = 3] hand s1 ok unfolding w1 by (simp add: finish_def)
  have f: "refreshPromise (client (settle ?hc ?w1 0 example_reply)) = None"
    using T1 [where c = 4] unfolding w1 by simp
  have g: "http_calls (call_refreshAccessToken (settle ?hc ?w1 0 example_reply) 4 [])
           = [''old-refresh'', ''old-refresh'']"
    using T1 [where c = 4] hand' s1 unfolding w1 by (simp add: or_else_def)
  note T2 = refresh_single_flight [where ?hc0.0 = ?hc and hc = ?hc and cfg = example_config
      and evs = "[RefreshAccessToken 1 ''rt'']" and ov = "[]" and c = 2, OF refl]
  have h: "results (call_refreshAccessToken ?wr 2 [])
           = [(2, Inl (WhoopAuthError ''No refresh token available''))]"
    using T2 unfolding wr by (simp add: refresh_token_at_hand_def or_else_def finish_def)
  note T3 = refresh_single_flight [where ?hc0.0 = ?hc and hc = ?hc and cfg = example_config
      and evs = "[SetTokens ((example_tokens 60)\<lparr>refresh_token := []\<rparr>)]"
      and t = "(example_tokens 60)\<lparr>refresh_token := []\<rparr>" and c = 1
      and ?n1.0 = 0 and ?n2.0 = 0, OF refl]
  have i: "results (call_getValidAccessToken ?wn 1 0 0)
           = [(1, Inl (WhoopAuthError ''No refresh token available''))]"
    using T3 exn unfolding wn by (simp add: finish_def)
  from a b c d k e f g h i show ?thesis
    by (intro conjI)
qed

text \<open>
  C6 as it is stated fails in two ways. By the guard that the code has by design, for a
  call that has no refresh token at hand: a refresh is started with an explicit refresh
  token on a client that stores no tokens; a second call without an argument, made
  while the first is in flight, is rejected at once and does not wait for the promise
  in flight; and two calls of \<open>getValidAccessToken\<close> on a token set that is reported as
  expired and whose refresh token is empty send no refresh request at all. And through
  the expiry check, which does not use the time at which the tokens were stored (the
  defect shown for C1): a token set with \<open>expires_in = 3600\<close> stored at time 0 has
  expired by the rule of the specification two hours later, but \<open>isTokenExpired\<close> does
  not report it, and two calls of \<open>getValidAccessToken\<close> at that time return the old
  access token and send no refresh request. The theorem above speaks only of token sets
  that \<open>isTokenExpired\<close> reports as expired.
\<close>

theorem refresh_without_token_rejected:
  "refreshPromise (client (call_refreshAccessToken
       (new_world (new_oauth_client example_config)) 1 ''rt'')) = Some 0
   \<and> \<not> awaits (call_refreshAccessToken (call_refreshAccessToken
       (new_world (new_oauth_client example_config)) 1 ''rt'') 2 []) 2 0
   \<and> result_of (call_refreshAccessToken (call_refreshAccessToken
       (new_world (new_oauth_client example_config)) 1 ''rt'') 2 []) 2
       = Some (Inl (WhoopAuthError ''No refresh token available''))
   \<and> isTokenExpired (new_oauth_client example_config)
       (Some ((example_tokens 60)\<lparr>refresh_token := []\<rparr>)) 0 0
   \<and> http_calls (call_getValidAccessToken (call_getValidAccessToken
       (new_world (setTokens (new_oauth_client example_config)
          ((example_tokens 60)\<lparr>refresh_token := []\<rparr>))) 1 0 0) 2 0 0) = []
   \<and> expired_by_spec 0 (example_tokens 3600) 7200000
   \<and> http_calls (call_getValidAccessToken (call_getValidAccessToken
       (new_world (setTokens (new_oauth_client example_config) (example_tokens 3600)))
       1 7200000 7200000) 2 7200000 7200000) = []
   \<and> results (call_getValidAccessToken (call_getValidAccessToken
       (new_world (setTokens (new_oauth_client example_config) (example_tokens 3600)))
       1 7200000 7200000) 2 7200000 7200000)
       = [(1, Inr (AccessTokenValue ''old-access'')), (2, Inr (AccessTokenValue ''old-access''))]"
  by (simp add: call_refreshAccessToken_def call_getValidAccessToken_def new_world_def
      new_oauth_client_def setTokens_def refresh_begin_def or_else_def suspend_def finish_def
      awaits_def result_of_def isTokenExpired_def example_tokens_def expired_by_spec_def Let_def)

section \<open>Request pipeline: a 401 response\<close>

text \<open>
  Whatever the refresh and the callback do, the rest of \<open>handleResponse\<close> ends with the
  error made from the response, and it leaves the token set empty exactly when the
  refresh failed or the callback \<open>onTokenRefresh\<close> failed.
\<close>

lemma resume_handle_result:
  assumes "w_kind wt = HandleCall error"
  shows "results (resume hc out wt w) = results w @ [(w_caller wt, Inl error)]"
  using assms by (auto simp: resume_def finish_def Let_def split: sum.splits option.splits)

lemma resume_handle_tokens:
  assumes "w_kind wt = HandleCall error"
  shows "tokens (client (resume hc out wt w)) =
           (case out of
              Inl e \<Rightarrow> None
            | Inr t \<Rightarrow> if callback_fails hc t then None
                       else if w_leader wt then Some t else tokens (client w))"
  using assms
  by (auto simp: resume_def finish_def clearTokens_def callback_fails_def Let_def
      split: sum.splits option.splits)

text \<open>
  The handler of \<open>performRequest\<close> never passes the 401 error on: the caller of the
  pipeline receives a timeout error or a network error that wraps it.
\<close>

lemma performRequest_catch_401:
  "performRequest_catch aborted (fromHttpStatus 401 b) \<noteq> fromHttpStatus 401 b"
  "performRequest_catch False (fromHttpStatus 401 b) =
     WhoopNetworkError (''Network error: '' @ or_else (body_message b) ''Unauthorized'')
       (WhoopAuthError (or_else (body_message b) ''Unauthorized''))"
  by (simp_all add: performRequest_catch_def fromHttpStatus_def fromNetworkError_def)

text \<open>
  C2 fails on the code when the callback \<open>onTokenRefresh\<close> fails. The response has
  status 401, an OAuth client with a valid refresh token is configured, one refresh
  request is sent and answered with new tokens, and the callback rejects: the error of
  the response is thrown, as the claim says, but the \<^verbatim>\<open>catch\<close> block has cleared the
  tokens, among them the new ones, although the refresh itself succeeded.
\<close>

theorem handleResponse_clears_tokens_after_successful_refresh:
  "http_calls (call_handleResponse
       \<lparr>oauthClient = True, onTokenRefresh = Some (\<lambda>t. Some (JsError ''callback failed''))\<rparr>
       (new_world (setTokens (new_oauth_client example_config) (example_tokens 3600))) 1
       \<lparr>resp_status = 401, resp_body = NullBody\<rparr>) = [''old-refresh'']
   \<and> performTokenRefresh example_config ''old-refresh'' example_reply
       = Inr \<lparr>access_token = ''new-access'', refresh_token = ''old-refresh'', expires_in = 3600,
              token_type = ''Bearer'', scope = ''read:profile offline''\<rparr>
   \<and> result_of (settle
         \<lparr>oauthClient = True, onTokenRefresh = Some (\<lambda>t. Some (JsError ''callback failed''))\<rparr>
         (call_handleResponse
           \<lparr>oauthClient = True, onTokenRefresh = Some (\<lambda>t. Some (JsError ''callback failed''))\<rparr>
           (new_world (setTokens (new_oauth_client example_config) (example_tokens 3600))) 1
           \<lparr>resp_status = 401, resp_body = NullBody\<rparr>)
         0 example_reply) 1 = Some (Inl (WhoopAuthError ''Unauthorized''))
   \<and> tokens (client (settle
         \<lparr>oauthClient = True, onTokenRefresh = Some (\<lambda>t. Some (JsError ''callback failed''))\<rparr>
         (call_handleResponse
           \<lparr>oauthClient = True, onTokenRefresh = Some (\<lambda>t. Some (JsError ''callback failed''))\<rparr>
           (new_world (setTokens (new_oauth_client example_config) (example_tokens 3600))) 1
           \<lparr>resp_status = 401, resp_body = NullBody\<rparr>)
         0 example_reply)) = None"
  by (simp add: call_handleResponse_def resp_ok_def fromHttpStatus_def body_message_def
      or_else_def new_world_def setTokens_def new_oauth_client_def example_tokens_def
      refresh_begin_def suspend_def Let_def settle_def performTokenRefresh_def example_reply_def
      example_config_def resume_def finish_def clearTokens_def result_of_def)

section \<open>Deduplication: one execution per key\<close>













section \<open>Deduplication: the entries of the map\<close>









section \<open>Deduplication: calls that collapse\<close>



















text \<open>
  The ceiling in the setting of the repository's test of the combined cache and
  deduplicator (\<open>maxConcurrent = 5\<close>, \<open>windowMs = 100\<close>, requests for the ids
  \<open>i mod 10\<close>, each function taking 10 ms), for its first 15 requests; the later ones
  stay inside \<open>waitForSlot\<close> meanwhile. All calls are made at time 0: five start an
  execution and ten wait for a slot. After 10 ms the five settle and the timers fire:
  calls 5 to 9 start their executions, calls 10 to 14 find the ceiling again. After
  20 ms these settle, and calls 10 to 14, whose ids are those of calls 0 to 4, invoke
  the function once more each: 15 invocations for 10 ids, where the test expects at
  most 10.
\<close>

lemma dedup_ceiling_in_combined_test:
  "length (execs (dedup_run
      (new_dedup \<lparr>enabled = True, windowMs = 100, maxConcurrent = 5\<rparr> :: nat dedup)
      (map (\<lambda>i. Execute i (test_key i) False 0) [0 ..< 15]
       @ map (\<lambda>i. Settle i (Inr (i mod 10))) [0 ..< 5] @ map (\<lambda>i. Poll i 10) [5 ..< 15]
       @ map (\<lambda>i. Settle i (Inr (i mod 10))) [5 ..< 10] @ map (\<lambda>i. Poll i 20) [10 ..< 15]))) = 15
   \<and> map x_key (execs (dedup_run
      (new_dedup \<lparr>enabled = True, windowMs = 100, maxConcurrent = 5\<rparr> :: nat dedup)
      (map (\<lambda>i. Execute i (test_key i) False 0) [0 ..< 15]
       @ map (\<lambda>i. Settle i (Inr (i mod 10))) [0 ..< 5] @ map (\<lambda>i. Poll i 10) [5 ..< 15]
       @ map (\<lambda>i. Settle i (Inr (i mod 10))) [5 ..< 10] @ map (\<lambda>i. Poll i 20) [10 ..< 15])))
     = map test_key [0 ..< 15]"
  by code_simp

section \<open>Deduplication: cancellation\<close>

text \<open>
  \<open>cancel\<close> returns true exactly when the key has a pending request, and the key has
  none afterwards.
\<close>

lemma cancel_returns:
  "fst (cancel w key) = (map_of (pendingRequests w) key \<noteq> None)"
  "map_of (pendingRequests (snd (cancel w key))) key = None"
  by (auto simp: cancel_def delete_conv' split: option.splits)

text \<open>
  When the function fails after the cancellation, the leader and every attached caller
  are rejected with the error \<^verbatim>\<open>Request was cancelled\<close>.
\<close>

lemma settle_cancelled_failure:
  assumes "i < length (execs w)" and "x_active (execs w ! i)" and "x_registered (execs w ! i)"
    and "x_aborted (execs w ! i)"
  shows "d_results (settle_exec w i (Inl e)) =
           d_results w @ map (\<lambda>c. (c, Inl (JsError ''Request was cancelled''))) (x_waiters (execs w ! i))
             @ [(x_leader (execs w ! i), Inl (JsError ''Request was cancelled''))]"
  using assms by (simp add: settle_exec_def Let_def)

text \<open>
  C9 fails on the code when the function succeeds after the cancellation. Call 1
  starts the execution for the key, call 2 attaches to it, \<open>cancel\<close> returns true and
  removes the pending request; the function, which never sees the signal, then resolves
  with a value, and both calls are resolved with that value instead of being rejected as
  cancelled.
\<close>

theorem cancel_then_success_resolves:
  "fst (cancel (dedup_run (new_dedup default_dedup_config :: string dedup)
        [Execute 1 ''k'' False 0, Execute 2 ''k'' False 10]) ''k'')
   \<and> pendingRequests (dedup_run (new_dedup default_dedup_config :: string dedup)
        [Execute 1 ''k'' False 0, Execute 2 ''k'' False 10, Cancel ''k'']) = []
   \<and> d_results (dedup_run (new_dedup default_dedup_config :: string dedup)
        [Execute 1 ''k'' False 0, Execute 2 ''k'' False 10, Cancel ''k'', Settle 0 (Inr ''v'')])
       = [(2, Inr ''v''), (1, Inr ''v'')]"
  by code_simp


end
